theory Spec2Isabelle
  imports Complex_Main "HOL-Library.Word" "HOL-Library.List_Lexorder" "HOL-Library.Multiset"
begin

section \<open>Values, errors and data frames\<close>

text \<open>
  The trajectory table of \<^verbatim>\<open>sktracker/trajectories/trajectories.py\<close> is a
  \<^verbatim>\<open>pandas.DataFrame\<close> subclass. A cell holds an integer (frame stamps, labels) or a
  float (coordinates, time); floats are abstracted to reals, so rounding is not part of the
  model. A column or index level of a frame has one dtype, hence all its values carry the
  same constructor and structural equality is numpy's \<^verbatim>\<open>==\<close> on it.
\<close>

datatype val = IntV int | FloatV real

fun num :: "val \<Rightarrow> real" where
  "num (IntV i) = real_of_int i"
| "num (FloatV r) = r"

fun val_mul :: "val \<Rightarrow> val \<Rightarrow> val" where
  "val_mul (IntV a) (IntV b) = IntV (a * b)"
| "val_mul a b = FloatV (num a * num b)"

fun val_add :: "val \<Rightarrow> val \<Rightarrow> val" where
  "val_add (IntV a) (IntV b) = IntV (a + b)"
| "val_add a b = FloatV (num a + num b)"

fun val_sub :: "val \<Rightarrow> val \<Rightarrow> val" where
  "val_sub (IntV a) (IntV b) = IntV (a - b)"
| "val_sub a b = FloatV (num a - num b)"

text \<open>
  Python exceptions are values. \<open>ValueError\<close> carries the message template and the names
  that \<^verbatim>\<open>str.format\<close> puts into it.
\<close>

datatype error =
    ValueError string "string list"
  | KeyError string
  | IndexError
  | AttributeError string

fun bind_e :: "error + 'a \<Rightarrow> ('a \<Rightarrow> error + 'b) \<Rightarrow> error + 'b" where
  "bind_e (Inl e) f = Inl e"
| "bind_e (Inr x) f = f x"

fun mapM_e :: "('a \<Rightarrow> error + 'b) \<Rightarrow> 'a list \<Rightarrow> error + 'b list" where
  "mapM_e f [] = Inr []"
| "mapM_e f (x # xs) =
     bind_e (f x) (\<lambda>y. bind_e (mapM_e f xs) (\<lambda>ys. Inr (y # ys)))"

text \<open>
  A frame: the names of the index levels, the names of the columns, and the rows in their
  stored order, each row being its index tuple and its cells. A frame with no index level
  stands for pandas' default positional index.
\<close>

type_synonym row = "val list \<times> val list"

record frame =
  index_names :: "string list"
  columns :: "string list"
  rows :: "row list"

definition wf_frame :: "frame \<Rightarrow> bool" where
  "wf_frame f \<longleftrightarrow>
     list_all (\<lambda>r. length (fst r) = length (index_names f)
                  \<and> length (snd r) = length (columns f)) (rows f)"

fun index_of :: "'a \<Rightarrow> 'a list \<Rightarrow> nat" where
  "index_of x [] = 0"
| "index_of x (y # ys) = (if x = y then 0 else Suc (index_of x ys))"

fun remove_nth :: "nat \<Rightarrow> 'a list \<Rightarrow> 'a list" where
  "remove_nth n [] = []"
| "remove_nth 0 (x # xs) = xs"
| "remove_nth (Suc n) (x # xs) = x # remove_nth n xs"

subsection \<open>The pandas operations the methods use\<close>

definition get_level_number :: "frame \<Rightarrow> string \<Rightarrow> error + nat" where
  "get_level_number f level =
     (if 1 < count_list (index_names f) level
        then Inl (ValueError ''The name occurs multiple times, use a level number'' [level])
      else if level \<in> set (index_names f) then Inr (index_of level (index_names f))
      else Inl (KeyError level))"

definition get_level_values :: "string \<Rightarrow> frame \<Rightarrow> error + val list" where
  "get_level_values level f =
     bind_e (get_level_number f level) (\<lambda>k. Inr (map (\<lambda>r. fst r ! k) (rows f)))"

definition getitem :: "string \<Rightarrow> frame \<Rightarrow> error + val list" where
  "getitem col f =
     (if col \<in> set (columns f)
        then Inr (map (\<lambda>r. snd r ! index_of col (columns f)) (rows f))
      else Inl (KeyError col))"

definition setitem :: "string \<Rightarrow> val list \<Rightarrow> frame \<Rightarrow> error + frame" where
  "setitem col vs f =
     (if length vs \<noteq> length (rows f)
        then Inl (ValueError ''Length of values does not match length of index'' [])
      else if col \<in> set (columns f)
        then Inr (f\<lparr>rows := map2 (\<lambda>v r. (fst r, (snd r)[index_of col (columns f) := v]))
                                  vs (rows f)\<rparr>)
      else Inr (f\<lparr>columns := columns f @ [col],
                  rows := map2 (\<lambda>v r. (fst r, snd r @ [v])) vs (rows f)\<rparr>))"

text \<open>
  \<^verbatim>\<open>set_index(col, append=True, inplace=True)\<close>: the column becomes the last index
  level. On the default positional index pandas keeps that index as an unnamed first
  level, which the model leaves out.
\<close>

definition set_index_append :: "string \<Rightarrow> frame \<Rightarrow> error + frame" where
  "set_index_append col f =
     (if col \<in> set (columns f)
        then (let k = index_of col (columns f)
              in Inr (f\<lparr>index_names := index_names f @ [col],
                        columns := remove_nth k (columns f),
                        rows := map (\<lambda>r. (fst r @ [snd r ! k], remove_nth k (snd r)))
                                    (rows f)\<rparr>))
      else Inl (KeyError col))"

definition reset_index_drop :: "string \<Rightarrow> frame \<Rightarrow> error + frame" where
  "reset_index_drop level f =
     bind_e (get_level_number f level) (\<lambda>k.
       Inr (f\<lparr>index_names := remove_nth k (index_names f),
              rows := map (\<lambda>r. (remove_nth k (fst r), snd r)) (rows f)\<rparr>))"

definition set_names :: "string list \<Rightarrow> frame \<Rightarrow> error + frame" where
  "set_names names f =
     (if length names \<noteq> length (index_names f)
        then Inl (ValueError ''Length of new names must match number of levels'' names)
      else Inr (f\<lparr>index_names := names\<rparr>))"

definition sort_index :: "frame \<Rightarrow> frame" where
  "sort_index f = f\<lparr>rows := sort_key (\<lambda>r. map num (fst r)) (rows f)\<rparr>"

section \<open>Trajectories: structure check and getters\<close>

definition truthy :: "'a list option \<Rightarrow> bool" where
  "truthy a = (case a of None \<Rightarrow> False | Some xs \<Rightarrow> xs \<noteq> [])"

definition check_trajs_df_structure ::
  "string list option \<Rightarrow> string list option \<Rightarrow> frame \<Rightarrow> error + unit" where
  "check_trajs_df_structure index cols f =
     (if truthy index \<and> index_names f \<noteq> the index
        then Inl (ValueError ''Trajectories does not contain correct indexes : {}'' (the index))
      else if truthy cols \<and> \<not> set (the cols) \<subseteq> set (columns f)
        then Inl (ValueError ''Trajectories does not contain correct columns : {}''
                    (remdups (the cols)))
      else Inr ())"

text \<open>\<^verbatim>\<open>unique()\<close> keeps the first occurrence of each value, in order of appearance.\<close>

fun unique :: "'a list \<Rightarrow> 'a list" where
  "unique [] = []"
| "unique (x # xs) = x # unique (filter (\<lambda>y. y \<noteq> x) xs)"

definition labels :: "frame \<Rightarrow> error + val list" where
  "labels f =
     (if ''label'' \<in> set (columns f) then bind_e (getitem ''label'' f) (\<lambda>c. Inr (unique c))
      else bind_e (get_level_values ''label'' f) (\<lambda>c. Inr (unique c)))"

text \<open>
  \<^verbatim>\<open>groupby(level='label').groups\<close>: for each label, the index tuples of its records
  in row order. pandas sorts the group keys, so the dictionary is read in ascending label
  order.
\<close>

definition segment_idxs :: "frame \<Rightarrow> error + (val \<times> val list list) list" where
  "segment_idxs f =
     bind_e (get_level_number f ''label'') (\<lambda>k.
       Inr (map (\<lambda>l. (l, map fst (filter (\<lambda>r. fst r ! k = l) (rows f))))
                (sort_key num (unique (map (\<lambda>r. fst r ! k) (rows f))))))"

section \<open>Trajectories: relabelling\<close>

text \<open>
  \<^verbatim>\<open>astype(np.uint16)\<close> wraps an integer modulo \<open>2 ^ 16\<close>; a float is truncated
  towards zero first.
\<close>

fun astype_uint16 :: "val \<Rightarrow> 16 word" where
  "astype_uint16 (IntV i) = word_of_int i"
| "astype_uint16 (FloatV r) = word_of_int (if 0 \<le> r then \<lfloor>r\<rfloor> else \<lceil>r\<rceil>)"

definition enumerate_from0 :: "'a list \<Rightarrow> (nat \<times> 'a) list" where
  "enumerate_from0 xs = zip [0..<length xs] xs"

text \<open>
  The loop \<^verbatim>\<open>for n, uv in enumerate(old_lbls.unique()): nu_lbls[old_lbls == uv] = n\<close>
  of \<^verbatim>\<open>relabel_fromzero\<close>; the store into the \<^verbatim>\<open>uint16\<close> array wraps \<open>n\<close>.
\<close>

definition renumber :: "val list \<Rightarrow> 16 word list" where
  "renumber old_lbls =
     foldl (\<lambda>nu_lbls (n, uv). map2 (\<lambda>old cur. if old = uv then of_nat n else cur)
                                    old_lbls nu_lbls)
           (map astype_uint16 old_lbls)
           (enumerate_from0 (unique old_lbls))"

text \<open>What \<^verbatim>\<open>relabel_fromzero(level)\<close> does to the table it works on.\<close>

definition relabel_fromzero_on :: "string \<Rightarrow> frame \<Rightarrow> error + frame" where
  "relabel_fromzero_on level f =
     bind_e (get_level_values level f) (\<lambda>old_lbls.
     bind_e (setitem ''new_label'' (map (\<lambda>w. IntV (uint w)) (renumber old_lbls)) f) (\<lambda>f1.
     bind_e (set_index_append ''new_label'' f1) (\<lambda>f2.
     bind_e (reset_index_drop level f2) (\<lambda>f3.
       set_names [''t_stamp'', ''label''] f3))))"

text \<open>
  \<^verbatim>\<open>relabel(new_labels)\<close>, up to and including \<^verbatim>\<open>sort_index\<close>. pandas sorts a
  multi-level index lexicographically and stably.
\<close>

definition relabel_steps :: "val list option \<Rightarrow> frame \<Rightarrow> error + frame" where
  "relabel_steps new_labels f =
     bind_e (case new_labels of None \<Rightarrow> Inr f | Some nl \<Rightarrow> setitem ''new_label'' nl f) (\<lambda>f1.
     bind_e (case set_index_append ''new_label'' f1 of
               Inl (KeyError _) \<Rightarrow>
                 Inl (KeyError ''Column new_label was not found in `trajs` and none was provided'')
             | r \<Rightarrow> r) (\<lambda>f2.
     bind_e (reset_index_drop ''label'' f2) (\<lambda>f3.
     bind_e (set_names [''t_stamp'', ''label''] f3) (\<lambda>f4.
       Inr (sort_index f4)))))"

text \<open>
  What \<^verbatim>\<open>relabel(new_labels)\<close> does to the table it works on: its last statement is
  \<^verbatim>\<open>return trajs.relabel_fromzero('label', inplace=inplace)\<close>.
\<close>

definition relabel_on :: "val list option \<Rightarrow> frame \<Rightarrow> error + frame" where
  "relabel_on new_labels f =
     bind_e (relabel_steps new_labels f) (relabel_fromzero_on ''label'')"

section \<open>Trajectories: reverse, scale, set\_level\_label\<close>

text \<open>
  \<^verbatim>\<open>reset_index()\<close> turns every index level into a leading column; the default
  positional index becomes a column \<^verbatim>\<open>index\<close> (or \<^verbatim>\<open>level_0\<close>). A name that is
  already a column cannot be inserted.
\<close>

definition reset_index_all :: "frame \<Rightarrow> error + frame" where
  "reset_index_all f =
     (if index_names f = []
        then (let name = (if ''index'' \<in> set (columns f) then ''level_0'' else ''index'')
              in if name \<in> set (columns f)
                   then Inl (ValueError ''cannot insert {}, already exists'' [name])
                 else Inr (f\<lparr>columns := name # columns f,
                             rows := map2 (\<lambda>i r. ([], IntV (int i) # snd r))
                                          [0..<length (rows f)] (rows f)\<rparr>))
      else if \<not> distinct (index_names f) \<or> set (index_names f) \<inter> set (columns f) \<noteq> {}
        then Inl (ValueError ''cannot insert {}, already exists''
                    (filter (\<lambda>n. n \<in> set (columns f)) (index_names f)))
      else Inr \<lparr>index_names = [], columns = index_names f @ columns f,
                rows = map (\<lambda>r. ([], fst r @ snd r)) (rows f)\<rparr>)"

text \<open>\<^verbatim>\<open>reset_index(levels)\<close>: the named levels become leading columns, the others stay.\<close>

definition reset_index_levels :: "string list \<Rightarrow> frame \<Rightarrow> error + frame" where
  "reset_index_levels levels f =
     bind_e (mapM_e (get_level_number f) levels) (\<lambda>ks.
       if set levels \<inter> set (columns f) \<noteq> {}
         then Inl (ValueError ''cannot insert {}, already exists''
                     (filter (\<lambda>n. n \<in> set (columns f)) levels))
       else
         (let moved = filter (\<lambda>k. k \<in> set ks) [0..<length (index_names f)];
              kept = filter (\<lambda>k. k \<notin> set ks) [0..<length (index_names f)]
          in Inr \<lparr>index_names = map (\<lambda>k. index_names f ! k) kept,
                   columns = map (\<lambda>k. index_names f ! k) moved @ columns f,
                   rows = map (\<lambda>r. (map (\<lambda>k. fst r ! k) kept,
                                     map (\<lambda>k. fst r ! k) moved @ snd r)) (rows f)\<rparr>))"

text \<open>\<^verbatim>\<open>trajs[col] = trajs[col] * factor\<close>.\<close>

definition mul_column :: "string \<Rightarrow> val \<Rightarrow> frame \<Rightarrow> error + frame" where
  "mul_column col factor f =
     bind_e (getitem col f) (\<lambda>c. setitem col (map (\<lambda>v. val_mul v factor) c) f)"

text \<open>
  \<^verbatim>\<open>trajs.sort(col, inplace=True)\<close>. pandas sorts the rows by the column with numpy's
  default kind, quicksort, which is not stable: the rows come out in ascending order of
  the column, and the order among rows with equal values is the routine's own. The routine
  is therefore a parameter \<open>srt\<close>, given the key of a row and the rows.
\<close>

type_synonym sorter = "(row \<Rightarrow> real) \<Rightarrow> row list \<Rightarrow> row list"

definition sort_by :: "sorter \<Rightarrow> string \<Rightarrow> frame \<Rightarrow> error + frame" where
  "sort_by srt col f =
     (if col \<in> set (columns f)
        then Inr (f\<lparr>rows := srt (\<lambda>r. num (snd r ! index_of col (columns f))) (rows f)\<rparr>)
      else Inl (KeyError col))"

text \<open>\<^verbatim>\<open>set_index(keys, inplace=True)\<close>: the key columns replace the index.\<close>

definition set_index :: "string list \<Rightarrow> frame \<Rightarrow> error + frame" where
  "set_index keys f =
     (case filter (\<lambda>k. k \<notin> set (columns f)) keys of
        k # _ \<Rightarrow> Inl (KeyError k)
      | [] \<Rightarrow>
          (let ks = map (\<lambda>k. index_of k (columns f)) keys;
               rest = filter (\<lambda>j. j \<notin> set ks) [0..<length (columns f)]
           in Inr \<lparr>index_names = keys,
                    columns = map (\<lambda>j. columns f ! j) rest,
                    rows = map (\<lambda>r. (map (\<lambda>j. snd r ! j) ks, map (\<lambda>j. snd r ! j) rest))
                               (rows f)\<rparr>))"

definition reverse_on :: "sorter \<Rightarrow> string \<Rightarrow> frame \<Rightarrow> error + frame" where
  "reverse_on srt time_column f =
     bind_e (reset_index_all f) (\<lambda>f1.
     bind_e (mul_column ''t_stamp'' (IntV (- 1)) f1) (\<lambda>f2.
     bind_e (mul_column time_column (IntV (- 1)) f2) (\<lambda>f3.
     bind_e (sort_by srt ''t_stamp'' f3) (\<lambda>f4.
       set_index [''t_stamp'', ''label''] f4))))"

fun scale_loop :: "(val \<times> string) list \<Rightarrow> frame \<Rightarrow> error + frame" where
  "scale_loop [] f = Inr f"
| "scale_loop ((factor, coord) # rest) f =
     bind_e (mul_column coord factor f) (scale_loop rest)"

section \<open>Trajectories as objects: the inplace flag\<close>

text \<open>
  A table object is its frame and the attribute \<^verbatim>\<open>old_indexes\<close> that
  \<^verbatim>\<open>set_level_label\<close> hangs on it. Objects live in a store; an address is a position in
  it and \<^verbatim>\<open>copy()\<close> appends a new object, without the attribute. A method returns the
  address of the table it returns (\<open>None\<close> for Python's \<^verbatim>\<open>None\<close>) and the new store;
  an exception ends the call. An optional argument that the caller leaves out is \<open>None\<close>.
\<close>

record trajectories =
  table :: frame
  old_indexes :: "string list option"

type_synonym heap = "trajectories list"

definition copy_m :: "nat \<Rightarrow> heap \<Rightarrow> nat \<times> heap" where
  "copy_m self h = (length h, h @ [\<lparr>table = table (h ! self), old_indexes = None\<rparr>])"

definition arg_or :: "'a \<Rightarrow> 'a option \<Rightarrow> 'a" where
  "arg_or dflt a = (case a of None \<Rightarrow> dflt | Some v \<Rightarrow> v)"

definition self_or_copy :: "bool \<Rightarrow> nat \<Rightarrow> heap \<Rightarrow> nat \<times> heap" where
  "self_or_copy inplace self h = (if inplace then (self, h) else copy_m self h)"

definition mutate :: "nat \<Rightarrow> (frame \<Rightarrow> error + frame) \<Rightarrow> heap \<Rightarrow> error + heap" where
  "mutate a g h =
     bind_e (g (table (h ! a))) (\<lambda>t. Inr (h[a := (h ! a)\<lparr>table := t\<rparr>]))"

definition relabel_fromzero ::
  "nat \<Rightarrow> string option \<Rightarrow> bool option \<Rightarrow> heap \<Rightarrow> error + (nat option \<times> heap)" where
  "relabel_fromzero self level inplace h =
     (let (tr, h1) = self_or_copy (arg_or False inplace) self h
      in bind_e (mutate tr (relabel_fromzero_on (arg_or ''label'' level)) h1) (\<lambda>h2.
           Inr (if arg_or False inplace then None else Some tr, h2)))"

definition relabel ::
  "nat \<Rightarrow> val list option \<Rightarrow> bool option \<Rightarrow> heap \<Rightarrow> error + (nat option \<times> heap)" where
  "relabel self new_labels inplace h =
     (let (tr, h1) = self_or_copy (arg_or True inplace) self h
      in bind_e (mutate tr (relabel_steps new_labels) h1) (\<lambda>h2.
           relabel_fromzero tr (Some ''label'') (Some (arg_or True inplace)) h2))"

text \<open>
  The body of \<^verbatim>\<open>set_level_label\<close>: the test reads the columns of \<^verbatim>\<open>self\<close>, the
  rest works on \<^verbatim>\<open>trajs\<close>.
\<close>

definition label_to_index :: "nat \<Rightarrow> nat \<Rightarrow> heap \<Rightarrow> error + heap" where
  "label_to_index self tr h1 =
     (if ''label'' \<notin> set (columns (table (h1 ! self))) then Inr h1
      else if ''t_stamp'' \<notin> set (index_names (table (h1 ! tr)))
        then Inl (ValueError ''list.remove(x): x not in list'' [])
      else
        (let olds = remove1 ''t_stamp'' (index_names (table (h1 ! tr)));
             h2 = h1[tr := (h1 ! tr)\<lparr>old_indexes := Some olds\<rparr>]
         in bind_e (mutate tr (reset_index_levels olds) h2)
                   (mutate tr (set_index_append ''label''))))"

definition set_level_label ::
  "nat \<Rightarrow> bool option \<Rightarrow> heap \<Rightarrow> error + (nat option \<times> heap)" where
  "set_level_label self inplace h =
     (let (tr, h1) = self_or_copy (arg_or True inplace) self h
      in bind_e (label_to_index self tr h1)
           (\<lambda>h3. Inr (if arg_or True inplace then None else Some tr, h3)))"

definition scale ::
  "nat \<Rightarrow> val list \<Rightarrow> string list option \<Rightarrow> bool option \<Rightarrow> heap
     \<Rightarrow> error + (nat option \<times> heap)" where
  "scale self factors coords_arg inplace h =
     (let cs = arg_or [''x'', ''y'', ''z''] coords_arg
      in if length factors \<noteq> length cs
           then Inl (ValueError ''Arguments factors and coords must be of same length'' [])
         else
           (let (tr, h1) = self_or_copy (arg_or False inplace) self h
            in bind_e (mutate tr (scale_loop (zip factors cs)) h1) (\<lambda>h2.
                 Inr (Some tr, h2))))"

definition reverse ::
  "sorter \<Rightarrow> nat \<Rightarrow> string option \<Rightarrow> bool option \<Rightarrow> heap
     \<Rightarrow> error + (nat option \<times> heap)" where
  "reverse srt self time_column inplace h =
     (let (tr, h1) = self_or_copy (arg_or False inplace) self h
      in bind_e (mutate tr (reverse_on srt (arg_or ''t'' time_column)) h1) (\<lambda>h2.
           Inr (if arg_or False inplace then None else Some tr, h2)))"

text \<open>What \<^verbatim>\<open>set_level_label\<close> does to the frame of the table it works on.\<close>

definition set_level_label_on :: "frame \<Rightarrow> error + frame" where
  "set_level_label_on f =
     (if ''label'' \<notin> set (columns f) then Inr f
      else if ''t_stamp'' \<notin> set (index_names f)
        then Inl (ValueError ''list.remove(x): x not in list'' [])
      else bind_e (reset_index_levels (remove1 ''t_stamp'' (index_names f)) f)
                  (set_index_append ''label''))"

text \<open>
  The two outcomes the inplace flag chooses between. A fresh copy: every object of the old
  store is as it was, and the returned address is a new object whose frame is the
  modification \<open>g\<close> of the receiver's frame. In place: no object is added, no other object
  changes, and the receiver's frame is the modification of what it was.
\<close>

definition returns_fresh_copy ::
  "(frame \<Rightarrow> error + frame) \<Rightarrow> nat \<Rightarrow> heap \<Rightarrow> nat option \<Rightarrow> heap \<Rightarrow> bool" where
  "returns_fresh_copy g self h r h' \<longleftrightarrow>
     take (length h) h' = h \<and>
     (case r of
        None \<Rightarrow> False
      | Some a \<Rightarrow> length h \<le> a \<and> a < length h' \<and> g (table (h ! self)) = Inr (table (h' ! a)))"

definition mutates_in_place ::
  "(frame \<Rightarrow> error + frame) \<Rightarrow> nat \<Rightarrow> heap \<Rightarrow> heap \<Rightarrow> bool" where
  "mutates_in_place g self h h' \<longleftrightarrow>
     length h' = length h \<and>
     list_all (\<lambda>b. b = self \<or> h' ! b = h ! b) [0..<length h] \<and>
     g (table (h ! self)) = Inr (table (h' ! self))"

section \<open>GapCloseSolver\<close>

text \<open>
  The modules \<^verbatim>\<open>matrices\<close> and \<^verbatim>\<open>cost_function\<close> and the class
  \<^verbatim>\<open>AbstractSolver\<close> are not among the sources. What the solver calls from them is a
  parameter: the blocks are functions of what the cost functions read from their contexts,
  and the solved cost matrix is the triple that \<^verbatim>\<open>assign\<close> reads from it.
  A cost is a real or the invalid sentinel (\<open>None\<close>: not-a-number or infinite).
\<close>

type_synonym cost = "real option"
type_synonym mat = "cost list list"
type_synonym key = "val \<times> val"

record cost_matrix =
  out_links :: "nat list"
  row_shapes :: "nat list"
  col_shapes :: "nat list"

record matrices =
  LinkBlock :: "frame \<Rightarrow> key list \<Rightarrow> key list \<Rightarrow> val list \<Rightarrow> val list \<Rightarrow> error + mat"
  DiagBlock_birth :: "cost \<Rightarrow> val list \<Rightarrow> error + mat"
  DiagBlock_death :: "cost \<Rightarrow> val list \<Rightarrow> error + mat"
  CostMatrix_solve :: "mat \<Rightarrow> mat \<Rightarrow> mat \<Rightarrow> error + cost_matrix"

record solver =
  trajs :: frame
  coords :: "string list"
  maximum_gap :: int
  link_context :: "(key list \<times> key list) option"
  birth_context :: "cost option"
  death_context :: "cost option"
  link_block :: "mat option"
  birth_block :: "mat option"
  death_block :: "mat option"
  cm :: "cost_matrix option"

definition new_solver :: "frame \<Rightarrow> int \<Rightarrow> string list \<Rightarrow> solver" where
  "new_solver tr max_gap cs =
     \<lparr>trajs = tr, coords = cs, maximum_gap = max_gap,
      link_context = None, birth_context = None, death_context = None,
      link_block = None, birth_block = None, death_block = None, cm = None\<rparr>"

text \<open>
  \<^verbatim>\<open>GapCloseSolver.__init__\<close>: the structure check comes first; \<open>cf_checks\<close> is the
  outcome of looking up and capability-checking the three cost functions, which does not
  read the table.
\<close>

definition GapCloseSolver_init ::
  "frame \<Rightarrow> error + unit \<Rightarrow> int \<Rightarrow> string list \<Rightarrow> error + solver" where
  "GapCloseSolver_init tr cf_checks max_gap cs =
     bind_e (check_trajs_df_structure (Some [''t_stamp'', ''label'']) (Some (''t'' # cs)) tr)
       (\<lambda>_. bind_e cf_checks (\<lambda>_. Inr (new_solver tr max_gap cs)))"

text \<open>
  numpy indexing of a one-dimensional array by an integer: a negative index counts from
  the end, anything else out of range raises, and so does a non-integer index.
\<close>

definition np_take :: "'a list \<Rightarrow> val \<Rightarrow> error + 'a" where
  "np_take xs v =
     (case v of
        FloatV _ \<Rightarrow> Inl IndexError
      | IntV i \<Rightarrow>
          if 0 \<le> i \<and> i < int (length xs) then Inr (xs ! nat i)
          else if i < 0 \<and> - int (length xs) \<le> i then Inr (xs ! nat (int (length xs) + i))
          else Inl IndexError)"

definition take_pos :: "'a list \<Rightarrow> nat \<Rightarrow> error + 'a" where
  "take_pos xs i = (if i < length xs then Inr (xs ! i) else Inl IndexError)"

text \<open>\<^verbatim>\<open>(idxs[0][0], idxs[-1][0])\<close> for one segment.\<close>

definition seg_bounds :: "val list list \<Rightarrow> error + (val \<times> val)" where
  "seg_bounds idxs =
     (case idxs of
        [] \<Rightarrow> Inl IndexError
      | i # _ \<Rightarrow>
          (case (i, last idxs) of
             (t0 # _, t1 # _) \<Rightarrow> Inr (t0, t1)
           | _ \<Rightarrow> Inl IndexError))"

text \<open>
  \<^verbatim>\<open>_get_candidates\<close>. \<^verbatim>\<open>np.array\<close> of an empty list is one-dimensional, so
  \<^verbatim>\<open>bounds[:, 0]\<close> raises on it. \<^verbatim>\<open>meshgrid(labels, labels)\<close> gives
  \<^verbatim>\<open>ss_in[i][j] = labels[j]\<close> and \<^verbatim>\<open>ss_out[i][j] = labels[i]\<close>; both index the
  bounds by label value. \<^verbatim>\<open>argwhere\<close> lists the matching \<open>(i, j)\<close> row by row.
\<close>

definition gap_ok :: "int \<Rightarrow> val \<Rightarrow> val \<Rightarrow> bool" where
  "gap_ok max_gap start stop \<longleftrightarrow>
     0 < num (val_sub start stop) \<and> num (val_sub start stop) < real_of_int max_gap"

definition get_candidates :: "solver \<Rightarrow> error + (key list \<times> key list)" where
  "get_candidates s =
     bind_e (labels (trajs s)) (\<lambda>lbls.
     bind_e (segment_idxs (trajs s)) (\<lambda>segs.
     bind_e (mapM_e (\<lambda>kv. seg_bounds (snd kv)) segs) (\<lambda>bounds.
       if bounds = [] then Inl IndexError
       else
         (let start_times = map fst bounds; stop_times = map snd bounds
          in bind_e (mapM_e (np_take start_times) lbls) (\<lambda>starts_out.
             bind_e (mapM_e (np_take stop_times) lbls) (\<lambda>stops_in.
               (let matches =
                      concat (map (\<lambda>i. map (\<lambda>j. (i, j))
                                 (filter (\<lambda>j. gap_ok (maximum_gap s) (starts_out ! i) (stops_in ! j))
                                         [0..<length lbls]))
                               [0..<length lbls])
                in if matches = [] then Inr ([], [])
                   else
                     bind_e (mapM_e (\<lambda>m. bind_e (take_pos start_times (fst m)) (\<lambda>t.
                                           bind_e (take_pos lbls (fst m)) (\<lambda>l. Inr (t, l))))
                                    matches) (\<lambda>in_idxs.
                     bind_e (mapM_e (\<lambda>m. bind_e (take_pos start_times (snd m)) (\<lambda>t.
                                           bind_e (take_pos lbls (snd m)) (\<lambda>l. Inr (t, l))))
                                    matches) (\<lambda>out_idxs.
                       Inr (in_idxs, out_idxs))))))))))"

text \<open>
  \<^verbatim>\<open>np.ma.masked_invalid(mat).compressed()\<close>: the valid entries, row by row.
  \<^verbatim>\<open>np.percentile\<close> interpolates linearly between the two nearest ranks; on an empty
  array its result is not-a-number.
\<close>

definition compressed :: "mat \<Rightarrow> real list" where
  "compressed m = concat (map (List.map_filter id) m)"

definition np_percentile :: "real list \<Rightarrow> real \<Rightarrow> cost" where
  "np_percentile a q =
     (if a = [] then None
      else
        (let srt = sort a;
             pos = q / 100 * real (length a - 1);
             lo = nat \<lfloor>pos\<rfloor>;
             hi = min (lo + 1) (length a - 1)
         in Some (srt ! lo + (srt ! hi - srt ! lo) * (pos - real lo))))"

text \<open>\<^verbatim>\<open>unique_new.max()\<close>; numpy raises on an empty array.\<close>

definition val_max :: "val list \<Rightarrow> error + val" where
  "val_max xs =
     (case xs of
        [] \<Rightarrow> Inl (ValueError ''zero-size array to reduction operation maximum'' [])
      | x # ys \<Rightarrow> Inr (foldl (\<lambda>a b. if num a < num b then b else a) x ys))"

definition store :: "'a list \<Rightarrow> nat \<Rightarrow> 'a \<Rightarrow> error + 'a list" where
  "store xs i v = (if i < length xs then Inr (xs[i := v]) else Inl IndexError)"

text \<open>The first loop of \<^verbatim>\<open>assign\<close>, over \<^verbatim>\<open>enumerate(out_links[:last_out_link])\<close>.\<close>

fun assign_loop :: "nat \<Rightarrow> (nat \<times> nat) list \<Rightarrow> val list \<Rightarrow> error + val list" where
  "assign_loop last_in_link [] unique_new = Inr unique_new"
| "assign_loop last_in_link ((idx_out, idx_in) # rest) unique_new =
     (if last_in_link \<le> idx_in
        then bind_e (val_max unique_new) (\<lambda>m.
             bind_e (store unique_new idx_out (val_add m (IntV 1)))
                    (assign_loop last_in_link rest))
      else bind_e (take_pos unique_new idx_in) (\<lambda>new_label.
           bind_e (store unique_new idx_out new_label)
                  (assign_loop last_in_link rest)))"

text \<open>
  The second loop of \<^verbatim>\<open>assign\<close>:
  \<^verbatim>\<open>for old, new in zip(unique_old, unique_new): new_labels[old_labels == old] = new\<close>.
\<close>

definition spread_labels :: "val list \<Rightarrow> val list \<Rightarrow> val list \<Rightarrow> val list" where
  "spread_labels old_labels unique_old unique_new =
     foldl (\<lambda>new_labels (old, new). map2 (\<lambda>lbl cur. if lbl = old then new else cur)
                                          old_labels new_labels)
           old_labels (zip unique_old unique_new)"

text \<open>
  Modelled from the spec: \<^verbatim>\<open>AbstractSolver.relabel_trajs\<close> is not among the sources.
  It rewrites every record's label to the matching entry of the array it is given, through
  \<^verbatim>\<open>Trajectories.relabel\<close> on the solver's own table.
\<close>

definition relabel_trajs :: "val list \<Rightarrow> solver \<Rightarrow> error + solver" where
  "relabel_trajs new_labels s =
     bind_e (relabel_on (Some new_labels) (trajs s)) (\<lambda>tr. Inr (s\<lparr>trajs := tr\<rparr>))"

definition new_labels_of :: "solver \<Rightarrow> error + val list" where
  "new_labels_of s =
     (case cm s of
        None \<Rightarrow> Inl (AttributeError ''cm'')
      | Some c \<Rightarrow>
          bind_e (get_level_values ''label'' (trajs s)) (\<lambda>old_labels.
          bind_e (labels (trajs s)) (\<lambda>unique_old.
          bind_e (take_pos (row_shapes c) 0) (\<lambda>last_in_link.
          bind_e (take_pos (col_shapes c) 0) (\<lambda>last_out_link.
          bind_e (assign_loop last_in_link
                    (enumerate_from0 (take last_out_link (out_links c))) unique_old)
            (\<lambda>unique_new. Inr (spread_labels old_labels unique_old unique_new)))))))"

definition assign :: "solver \<Rightarrow> error + (frame \<times> solver)" where
  "assign s =
     bind_e (new_labels_of s) (\<lambda>new_labels.
     bind_e (relabel_trajs new_labels s) (\<lambda>s'. Inr (trajs s', s')))"

text \<open>
  \<^verbatim>\<open>track\<close>. The link cost function reads the table, \<^verbatim>\<open>idxs_in\<close> and
  \<^verbatim>\<open>idxs_out\<close> from its context; the table there is the solver's own object, so the
  block is built from the table as it is at that moment. The diagonal cost functions read
  \<^verbatim>\<open>cost\<close> from theirs.
\<close>

definition alternative_cost :: "mat \<Rightarrow> cost" where
  "alternative_cost link_mat = np_percentile (compressed link_mat) 99"

definition track :: "matrices \<Rightarrow> solver \<Rightarrow> error + (frame \<times> solver)" where
  "track env s =
     bind_e (labels (trajs s)) (\<lambda>lbls.
     bind_e (get_candidates s) (\<lambda>(idxs_in, idxs_out).
       (let s1 = s\<lparr>link_context := Some (idxs_in, idxs_out)\<rparr>
        in if length idxs_in = 0 then Inr (trajs s1, s1)
           else
             bind_e (get_level_values ''label'' (trajs s1)) (\<lambda>old_labels.
             bind_e (setitem ''new_label'' (map (\<lambda>v. FloatV (num v)) old_labels) (trajs s1)) (\<lambda>tr.
             bind_e (LinkBlock env tr idxs_in idxs_out lbls lbls) (\<lambda>lb.
               (let cost = alternative_cost lb;
                    s2 = s1\<lparr>trajs := tr, link_block := Some lb,
                            birth_context := Some cost, death_context := Some cost\<rparr>
                in bind_e (DiagBlock_birth env (the (birth_context s2)) lbls) (\<lambda>bb.
                   bind_e (DiagBlock_death env (the (death_context s2)) lbls) (\<lambda>db.
                   bind_e (CostMatrix_solve env lb db bb) (\<lambda>c.
                     assign (s2\<lparr>birth_block := Some bb, death_block := Some db,
                                cm := Some c\<rparr>)))))))))))"

section \<open>Segments, and tables to run the code on\<close>

text \<open>
  The start and the stop of a segment, as \<^verbatim>\<open>_get_candidates\<close> reads them: the frame
  stamp of the first and of the last record carrying the label, in a table indexed by
  \<^verbatim>\<open>(t_stamp, label)\<close>.
\<close>

definition segment :: "frame \<Rightarrow> val \<Rightarrow> row list" where
  "segment f l = filter (\<lambda>r. fst r ! 1 = l) (rows f)"

definition start_time :: "frame \<Rightarrow> val \<Rightarrow> val option" where
  "start_time f l =
     (case segment f l of
        [] \<Rightarrow> None
      | r # _ \<Rightarrow> (case fst r of [] \<Rightarrow> None | t # _ \<Rightarrow> Some t))"

definition stop_time :: "frame \<Rightarrow> val \<Rightarrow> val option" where
  "stop_time f l =
     (case segment f l of
        [] \<Rightarrow> None
      | r # rs \<Rightarrow> (case fst (last (r # rs)) of [] \<Rightarrow> None | t # _ \<Rightarrow> Some t))"

text \<open>A pair of segments is a candidate when the gap between them is in the window.\<close>

definition is_candidate :: "frame \<Rightarrow> int \<Rightarrow> val \<Rightarrow> val \<Rightarrow> bool" where
  "is_candidate f max_gap out_lbl in_lbl =
     (case (start_time f in_lbl, stop_time f out_lbl) of
        (Some a, Some b) \<Rightarrow> gap_ok max_gap a b
      | _ \<Rightarrow> False)"

definition keys_of :: "frame \<Rightarrow> val list list" where
  "keys_of f = map fst (rows f)"

text \<open>\<^verbatim>\<open>Trajectories.empty_trajs\<close>, and a table with one spot per given key.\<close>

definition empty_trajs :: "string list \<Rightarrow> frame" where
  "empty_trajs cols = \<lparr>index_names = [''t_stamp'', ''label''], columns = cols, rows = []\<rparr>"

definition spots :: "(int \<times> int) list \<Rightarrow> frame" where
  "spots ks =
     \<lparr>index_names = [''t_stamp'', ''label''], columns = [''t'', ''x''],
      rows = map (\<lambda>(t, l). ([IntV t, IntV l], [FloatV (real_of_int t), FloatV 0])) ks\<rparr>"

text \<open>
  A stand-in for the absent modules: a link block given outright, diagonal blocks holding
  the cost read from the context, and a solved matrix with the given assignment.
\<close>

definition diag_mat :: "cost \<Rightarrow> val list \<Rightarrow> mat" where
  "diag_mat c ls =
     map (\<lambda>i. map (\<lambda>j. if i = j then c else None) [0..<length ls]) [0..<length ls]"

definition fixed_matrices :: "mat \<Rightarrow> nat list \<Rightarrow> matrices" where
  "fixed_matrices link_mat links =
     \<lparr>LinkBlock = (\<lambda>tr idxs_in idxs_out rs cs. Inr link_mat),
      DiagBlock_birth = (\<lambda>c ls. Inr (diag_mat c ls)),
      DiagBlock_death = (\<lambda>c ls. Inr (diag_mat c ls)),
      CostMatrix_solve = (\<lambda>l d b. Inr \<lparr>out_links = links,
                                        row_shapes = [length l, length b],
                                        col_shapes = [length l, length d]\<rparr>)\<rparr>"

text \<open>
  The candidate pairs of a table whose labels are \<open>0, \<dots>, n - 1\<close>, as positions
  \<open>(in, out)\<close>, row by row.
\<close>

definition candidate_pairs :: "frame \<Rightarrow> int \<Rightarrow> nat \<Rightarrow> (nat \<times> nat) list" where
  "candidate_pairs f max_gap n =
     concat (map (\<lambda>i. map (\<lambda>j. (i, j))
                         (filter (\<lambda>j. is_candidate f max_gap (IntV (int j)) (IntV (int i)))
                                 [0..<n]))
                 [0..<n])"

text \<open>The two-segment table of the gap closure scenario: frames 0 to 2 and 5 to 7.\<close>

definition two_segments :: frame where
  "two_segments = spots [(0, 0), (1, 0), (2, 0), (5, 1), (6, 1), (7, 1)]"

text \<open>
  What the first loop of \<^verbatim>\<open>assign\<close> leaves in \<^verbatim>\<open>unique_new\<close>: step \<open>p\<close>
  writes position \<open>p\<close> only, so it reads the new labels of the positions before \<open>p\<close> and
  the old labels of the others.
\<close>

definition labelled_by_loop :: "nat \<Rightarrow> nat list \<Rightarrow> val list \<Rightarrow> val list \<Rightarrow> bool" where
  "labelled_by_loop k links un un' \<longleftrightarrow>
     length un' = length un \<and>
     list_all (\<lambda>p.
        if p < length links
          then if k \<le> links ! p
                 then list_all (\<lambda>q. num (un' ! q) < num (un' ! p)) [0..<p]
                      \<and> list_all (\<lambda>q. num (un ! q) < num (un' ! p)) [p..<length un]
               else un' ! p = (if links ! p < p then un' ! (links ! p) else un ! (links ! p))
        else un' ! p = un ! p) [0..<length un]"

text \<open>A solved cost matrix over \<open>n\<close> segments with the given row to column assignment.\<close>

definition solved :: "nat list \<Rightarrow> nat \<Rightarrow> cost_matrix" where
  "solved links n = \<lparr>out_links = links, row_shapes = [n, n], col_shapes = [n, n]\<rparr>"

text \<open>
  The cost a call of \<^verbatim>\<open>track\<close> leaves in the birth context, and a link block with
  the two valid costs 0 and 100.
\<close>

definition seeded_cost :: "error + (frame \<times> solver) \<Rightarrow> cost option" where
  "seeded_cost r = (case r of Inl _ \<Rightarrow> None | Inr (_, s') \<Rightarrow> birth_context s')"

definition link_costs :: mat where
  "link_costs = [[None, Some 100], [Some 0, None]]"





text \<open>
  The keys the records get when the \<open>i\<close>-th record is given the \<open>i\<close>-th new label, and
  the number \<^verbatim>\<open>relabel_fromzero\<close> stores for a label: its rank among the labels in order
  of appearance, wrapped to 16 bits.
\<close>

definition new_keys :: "val list \<Rightarrow> frame \<Rightarrow> val list list" where
  "new_keys new_labels f = map2 (\<lambda>v r. [fst r ! 0, v]) new_labels (rows f)"

definition renum :: "val list \<Rightarrow> val \<Rightarrow> val" where
  "renum olds l = IntV (uint (of_nat (index_of l (unique olds)) :: 16 word))"

text \<open>
  What one \<^verbatim>\<open>reverse\<close> does to a record: the frame stamp and the time cell change
  sign, everything else stays. \<open>stamp\<close> is the key the rows are sorted by.
\<close>

definition negate_row :: "nat \<Rightarrow> row \<Rightarrow> row" where
  "negate_row k r =
     ([val_mul (fst r ! 0) (IntV (- 1)), fst r ! 1],
      (snd r)[k := val_mul (snd r ! k) (IntV (- 1))])"

definition stamp :: "row \<Rightarrow> real" where
  "stamp r = num (fst r ! 0)"

text \<open>
  Two stores of one table each: a spot labelled 3, and a spot indexed by
  \<^verbatim>\<open>(t_stamp, id)\<close> whose label is a column.
\<close>

definition one_table :: heap where
  "one_table = [\<lparr>table = spots [(0, 3)], old_indexes = None\<rparr>]"

definition label_column_table :: heap where
  "label_column_table =
     [\<lparr>table = \<lparr>index_names = [''t_stamp'', ''id''], columns = [''label'', ''x''],
                 rows = [([IntV 0, IntV 7], [IntV 1, FloatV 2])]\<rparr>,
       old_indexes = None\<rparr>]"

section \<open>Structure check at construction\<close>

text \<open>
  Claim C7. Constructing a \<^verbatim>\<open>GapCloseSolver\<close> on a table whose index names are not
  \<^verbatim>\<open>['t_stamp', 'label']\<close>, or which lacks \<^verbatim>\<open>t\<close> or a coordinate column, ends in
  the structure error before anything else happens; the error carries the required names,
  among them every missing one. On a table that meets the contract
  \<^verbatim>\<open>check_trajs_df_structure\<close> raises nothing.
\<close>

theorem structure_check_on_construction:
  "(index_names f \<noteq> [''t_stamp'', ''label''] \<longrightarrow>
      GapCloseSolver_init f cf g cs =
        Inl (ValueError ''Trajectories does not contain correct indexes : {}''
               [''t_stamp'', ''label'']))
   \<and> (index_names f = [''t_stamp'', ''label''] \<and> \<not> set (''t'' # cs) \<subseteq> set (columns f) \<longrightarrow>
        (\<exists>names. GapCloseSolver_init f cf g cs =
                   Inl (ValueError ''Trajectories does not contain correct columns : {}'' names)
                 \<and> set (''t'' # cs) - set (columns f) \<subseteq> set names))
   \<and> (index_names f = [''t_stamp'', ''label''] \<and> set (''t'' # cs) \<subseteq> set (columns f) \<longrightarrow>
        check_trajs_df_structure (Some [''t_stamp'', ''label'']) (Some (''t'' # cs)) f = Inr ())"
  by (auto simp: GapCloseSolver_init_def check_trajs_df_structure_def truthy_def)

theorem structure_check_on_construction_witness:
  "GapCloseSolver_init (spots [(0, 0)]\<lparr>index_names := [''t_stamp'']\<rparr>) (Inr ()) 5 [''x''] =
     Inl (ValueError ''Trajectories does not contain correct indexes : {}''
            [''t_stamp'', ''label''])
   \<and> (\<exists>names. GapCloseSolver_init (spots [(0, 0)]) (Inr ()) 5 [''x'', ''y''] =
                Inl (ValueError ''Trajectories does not contain correct columns : {}'' names)
              \<and> ''y'' \<in> set names)
   \<and> check_trajs_df_structure (Some [''t_stamp'', ''label'']) (Some [''t'', ''x''])
        (spots [(0, 0)]) = Inr ()"
proof -
  have a: "index_names (spots [(0, 0)]\<lparr>index_names := [''t_stamp'']\<rparr>) \<noteq> [''t_stamp'', ''label'']"
    by (simp add: spots_def)
  have b: "index_names (spots [(0, 0)]) = [''t_stamp'', ''label'']
           \<and> \<not> set (''t'' # [''x'', ''y'']) \<subseteq> set (columns (spots [(0, 0)]))"
    by (simp add: spots_def)
  have c: "index_names (spots [(0, 0)]) = [''t_stamp'', ''label'']
           \<and> set (''t'' # [''x'']) \<subseteq> set (columns (spots [(0, 0)]))"
    by (simp add: spots_def)
  have y: "''y'' \<in> set (''t'' # [''x'', ''y'']) - set (columns (spots [(0, 0)]))"
    by (simp add: spots_def)
  from structure_check_on_construction
         [of "spots [(0, 0)]\<lparr>index_names := [''t_stamp'']\<rparr>" "Inr ()" 5 "[''x'']"] a
  have 1: "GapCloseSolver_init (spots [(0, 0)]\<lparr>index_names := [''t_stamp'']\<rparr>) (Inr ()) 5 [''x''] =
     Inl (ValueError ''Trajectories does not contain correct indexes : {}''
            [''t_stamp'', ''label''])" by blast
  from structure_check_on_construction [of "spots [(0, 0)]" "Inr ()" 5 "[''x'', ''y'']"] b
  obtain names where "GapCloseSolver_init (spots [(0, 0)]) (Inr ()) 5 [''x'', ''y''] =
                Inl (ValueError ''Trajectories does not contain correct columns : {}'' names)"
      and "set (''t'' # [''x'', ''y'']) - set (columns (spots [(0, 0)])) \<subseteq> set names" by blast
  with y have 2: "\<exists>names. GapCloseSolver_init (spots [(0, 0)]) (Inr ()) 5 [''x'', ''y''] =
                Inl (ValueError ''Trajectories does not contain correct columns : {}'' names)
              \<and> ''y'' \<in> set names" by blast
  from structure_check_on_construction [of "spots [(0, 0)]" "Inr ()" 5 "[''x'']"] c
  have 3: "check_trajs_df_structure (Some [''t_stamp'', ''label'']) (Some [''t'', ''x''])
        (spots [(0, 0)]) = Inr ()" by blast
  from 1 2 3 show ?thesis by blast
qed

section \<open>Tracking without candidates, and on the empty table\<close>

lemma get_candidates_empty: "get_candidates (s\<lparr>trajs := empty_trajs cols\<rparr>) = Inl IndexError"
  by (simp add: get_candidates_def empty_trajs_def labels_def get_level_values_def
      get_level_number_def segment_idxs_def getitem_def)

text \<open>
  Claim C8 says that \<^verbatim>\<open>track\<close> on the empty table returns an empty table without
  raising. The code raises: with no segment, \<^verbatim>\<open>bounds\<close> is a one-dimensional empty
  array and \<^verbatim>\<open>bounds[:, 0]\<close> in \<^verbatim>\<open>_get_candidates\<close> is an \<^verbatim>\<open>IndexError\<close>, before
  the test for no matches is reached.
\<close>

theorem track_empty_table_raises:
  "track env (s\<lparr>trajs := empty_trajs cols\<rparr>) = Inl IndexError"
  by (simp add: track_def get_candidates_empty) (simp add: labels_def get_level_values_def
      get_level_number_def empty_trajs_def getitem_def)

lemma candidates_need_labels:
  "get_candidates s = Inr c \<Longrightarrow> \<exists>l. labels (trajs s) = Inr l"
  by (cases "labels (trajs s)") (simp_all add: get_candidates_def)

text \<open>
  Claim C4. When \<^verbatim>\<open>_get_candidates\<close> finds no candidate pair, \<^verbatim>\<open>track\<close> returns the
  solver's table as it was: no column added, no label changed. Of the solver only the
  link context is written; no block and no cost matrix is built.
\<close>

theorem track_no_candidates_is_noop:
  assumes "get_candidates s = Inr ([], [])"
  shows "track env s = Inr (trajs s, s\<lparr>link_context := Some ([], [])\<rparr>)"
proof -
  from assms obtain l where "labels (trajs s) = Inr l"
    using candidates_need_labels by blast
  with assms show ?thesis by (simp add: track_def)
qed

theorem track_no_candidates_is_noop_witness:
  "get_candidates (new_solver (spots [(0, 0), (1, 0), (2, 0)]) 5 [''x'']) = Inr ([], [])
   \<and> track (fixed_matrices [] []) (new_solver (spots [(0, 0), (1, 0), (2, 0)]) 5 [''x'']) =
       Inr (spots [(0, 0), (1, 0), (2, 0)],
            (new_solver (spots [(0, 0), (1, 0), (2, 0)]) 5 [''x''])
              \<lparr>link_context := Some ([], [])\<rparr>)"
proof -
  have h: "get_candidates (new_solver (spots [(0, 0), (1, 0), (2, 0)]) 5 [''x'']) = Inr ([], [])"
    by code_simp
  from track_no_candidates_is_noop [OF h, of "fixed_matrices [] []"] h show ?thesis
    by (simp add: new_solver_def)
qed

section \<open>Candidate enumeration\<close>

lemma mapM_e_Inr:
  "(\<And>x. x \<in> set xs \<Longrightarrow> f x = Inr (g x)) \<Longrightarrow> mapM_e f xs = Inr (map g xs)"
  by (induction xs) simp_all

lemma set_unique [simp]: "set (unique xs) = set xs"
  by (induction xs rule: unique.induct) auto

lemma sort_key_num_from_zero:
  "sort_key num (map (\<lambda>i. IntV (int i)) [0..<n]) = map (\<lambda>i. IntV (int i)) [0..<n]"
proof -
  have "sorted (map num (map (\<lambda>i. IntV (int i)) [0..<n]))"
    by (simp add: sorted_iff_nth_mono)
  then show ?thesis by (rule sort_key_id_if_sorted)
qed

lemma level_label: "index_names f = [''t_stamp'', ''label''] \<Longrightarrow> get_level_number f ''label'' = Inr 1"
  by (simp add: get_level_number_def)

lemma seg_bounds_segment:
  assumes wf: "wf_frame f" and idx: "index_names f = [''t_stamp'', ''label'']"
      and l: "l \<in> set (map (\<lambda>r. fst r ! 1) (rows f))"
  shows "\<exists>a b. seg_bounds (map fst (segment f l)) = Inr (a, b)
               \<and> start_time f l = Some a \<and> stop_time f l = Some b"
proof -
  from l obtain r rs where seg: "segment f l = r # rs"
    by (cases "segment f l") (auto simp: segment_def filter_empty_conv)
  have len: "\<And>x. x \<in> set (segment f l) \<Longrightarrow> length (fst x) = 2"
    using wf idx by (auto simp: segment_def wf_frame_def list_all_iff)
  have "length (fst r) = 2" using len seg by simp
  then obtain t0 r' where r: "fst r = t0 # r'" by (cases "fst r") auto
  have "last (r # rs) \<in> set (segment f l)" using seg by (metis last_in_set list.distinct(1))
  then have "length (fst (last (r # rs))) = 2" using len by blast
  then obtain t1 q' where q: "fst (last (r # rs)) = t1 # q'" by (cases "fst (last (r # rs))") auto
  have lm: "last (fst r # map fst rs) = fst (last (r # rs))"
    by (metis last_map list.distinct(1) list.simps(9))
  show ?thesis
    using seg r q lm by (simp add: seg_bounds_def start_time_def stop_time_def)
qed

lemma get_candidates_steps:
  assumes "labels (trajs s) = Inr lbls"
      and "segment_idxs (trajs s) = Inr segs"
      and "mapM_e (\<lambda>kv. seg_bounds (snd kv)) segs = Inr bounds"
      and "bounds \<noteq> []"
      and "mapM_e (np_take (map fst bounds)) lbls = Inr so"
      and "mapM_e (np_take (map snd bounds)) lbls = Inr si"
      and "matches = concat (map (\<lambda>i. map (\<lambda>j. (i, j))
                 (filter (\<lambda>j. gap_ok (maximum_gap s) (so ! i) (si ! j)) [0..<length lbls]))
                 [0..<length lbls])"
      and "mapM_e (\<lambda>m. bind_e (take_pos (map fst bounds) (fst m)) (\<lambda>t.
                            bind_e (take_pos lbls (fst m)) (\<lambda>l. Inr (t, l)))) matches = Inr a"
      and "mapM_e (\<lambda>m. bind_e (take_pos (map fst bounds) (snd m)) (\<lambda>t.
                            bind_e (take_pos lbls (snd m)) (\<lambda>l. Inr (t, l)))) matches = Inr b"
  shows "get_candidates s = Inr (a, b)"
proof (cases "matches = []")
  case True
  with assms(8,9) have "a = []" "b = []" by simp_all
  with True assms(1-7) show ?thesis
    by (simp add: get_candidates_def Let_def del: concat_eq_Nil_conv)
next
  case False
  with assms show ?thesis
    by (simp add: get_candidates_def Let_def del: concat_eq_Nil_conv)
qed

text \<open>
  Claim C1, amended. \<^verbatim>\<open>_get_candidates\<close> indexes the segment bounds by label value,
  so it needs the labels to be \<open>0, \<dots>, n - 1\<close> in order of first appearance (what
  \<^verbatim>\<open>relabel_fromzero\<close> leaves). On such a table, for every \<^verbatim>\<open>maximum_gap\<close>, it
  returns one entry per pair \<open>(in, out)\<close> of segments with
  \<open>0 < start_time in - stop_time out < maximum_gap\<close>, row by row, and no other; each
  \<^verbatim>\<open>in\<close> key is the start endpoint (start stamp, label) of the in segment and each
  \<^verbatim>\<open>out\<close> key carries the label of the out segment.
\<close>

theorem get_candidates_from_zero_labels:
  assumes idx: "index_names (trajs s) = [''t_stamp'', ''label'']"
      and col: "''label'' \<notin> set (columns (trajs s))"
      and wf: "wf_frame (trajs s)"
      and lbl: "labels (trajs s) = Inr (map (\<lambda>i. IntV (int i)) [0..<n])"
      and n: "0 < n"
  shows "\<exists>ins outs. get_candidates s = Inr (ins, outs)
           \<and> map (\<lambda>k. (Some (fst k), snd k)) ins =
               map (\<lambda>(i, j). (start_time (trajs s) (IntV (int i)), IntV (int i)))
                   (candidate_pairs (trajs s) (maximum_gap s) n)
           \<and> map snd outs =
               map (\<lambda>(i, j). IntV (int j)) (candidate_pairs (trajs s) (maximum_gap s) n)"
proof -
  define f where "f = trajs s"
  define L where "L = map (\<lambda>i. IntV (int i)) [0..<n]"
  define lc where "lc = map (\<lambda>r. fst r ! 1) (rows f)"
  define B where "B l = (the (start_time f l), the (stop_time f l))" for l
  define g where "g = maximum_gap s"
  have lev: "get_level_number f ''label'' = Inr 1" using idx by (simp add: f_def level_label)
  have "labels f = Inr (unique lc)"
    using col lev by (simp add: labels_def get_level_values_def f_def lc_def)
  with lbl have uq: "unique lc = L" by (simp add: f_def L_def)
  have segs: "segment_idxs f = Inr (map (\<lambda>l. (l, map fst (segment f l))) L)"
    using lev uq sort_key_num_from_zero [of n]
    by (simp add: segment_idxs_def segment_def lc_def L_def)
  have inL: "\<And>l. l \<in> set L \<Longrightarrow> l \<in> set lc"
    using uq set_unique [of lc] by simp
  have bnd: "\<And>l. l \<in> set L \<Longrightarrow>
      seg_bounds (map fst (segment f l)) = Inr (B l) \<and> start_time f l = Some (fst (B l))
      \<and> stop_time f l = Some (snd (B l))"
  proof -
    fix l assume "l \<in> set L"
    then have "l \<in> set (map (\<lambda>r. fst r ! 1) (rows f))" using inL by (simp add: lc_def)
    from seg_bounds_segment [OF _ _ this] wf idx
    obtain a b where "seg_bounds (map fst (segment f l)) = Inr (a, b)"
       "start_time f l = Some a" "stop_time f l = Some b" by (auto simp: f_def)
    then show "seg_bounds (map fst (segment f l)) = Inr (B l) \<and> start_time f l = Some (fst (B l))
      \<and> stop_time f l = Some (snd (B l))"
      by (simp add: B_def)
  qed
  have bounds: "mapM_e (\<lambda>kv. seg_bounds (snd kv)) (map (\<lambda>l. (l, map fst (segment f l))) L)
                  = Inr (map B L)"
  proof -
    have "mapM_e (\<lambda>kv. seg_bounds (snd kv)) (map (\<lambda>l. (l, map fst (segment f l))) L)
          = Inr (map (\<lambda>kv. B (fst kv)) (map (\<lambda>l. (l, map fst (segment f l))) L))"
      by (rule mapM_e_Inr) (auto simp: bnd)
    then show ?thesis by (simp add: comp_def)
  qed
  have ne: "map B L \<noteq> []" using n by (simp add: L_def)
  define st where "st = map fst (map B L)"
  define sp where "sp = map snd (map B L)"
  have lenst: "length st = n" "length sp = n" "length L = n" by (simp_all add: st_def sp_def L_def)
  have st_nth: "\<And>i. i < n \<Longrightarrow> st ! i = fst (B (IntV (int i)))"
    by (simp add: st_def L_def)
  have sp_nth: "\<And>i. i < n \<Longrightarrow> sp ! i = snd (B (IntV (int i)))"
    by (simp add: sp_def L_def)
  have L_nth: "\<And>i. i < n \<Longrightarrow> L ! i = IntV (int i)" by (simp add: L_def)
  have take_st: "mapM_e (np_take st) L = Inr st"
  proof -
    have "mapM_e (np_take st) L = Inr (map (\<lambda>l. fst (B l)) L)"
    proof (rule mapM_e_Inr)
      fix x assume "x \<in> set L"
      then obtain i where i: "i < n" "x = IntV (int i)" by (auto simp: L_def)
      then show "np_take st x = Inr (fst (B x))"
        using lenst st_nth by (simp add: np_take_def)
    qed
    then show ?thesis by (simp add: st_def comp_def)
  qed
  have take_sp: "mapM_e (np_take sp) L = Inr sp"
  proof -
    have "mapM_e (np_take sp) L = Inr (map (\<lambda>l. snd (B l)) L)"
    proof (rule mapM_e_Inr)
      fix x assume "x \<in> set L"
      then obtain i where i: "i < n" "x = IntV (int i)" by (auto simp: L_def)
      then show "np_take sp x = Inr (snd (B x))"
        using lenst sp_nth by (simp add: np_take_def)
    qed
    then show ?thesis by (simp add: sp_def comp_def)
  qed
  have cand: "\<And>i j. i < n \<Longrightarrow> j < n \<Longrightarrow>
      gap_ok g (st ! i) (sp ! j) = is_candidate f g (IntV (int j)) (IntV (int i))"
  proof -
    fix i j assume ij: "i < n" "j < n"
    then have "IntV (int i) \<in> set L" "IntV (int j) \<in> set L" by (auto simp: L_def)
    then show "gap_ok g (st ! i) (sp ! j) = is_candidate f g (IntV (int j)) (IntV (int i))"
      using bnd ij st_nth sp_nth by (simp add: is_candidate_def)
  qed
  define matches where "matches =
     concat (map (\<lambda>i. map (\<lambda>j. (i, j)) (filter (\<lambda>j. gap_ok g (st ! i) (sp ! j)) [0..<length L]))
                 [0..<length L])"
  have m_eq: "matches = candidate_pairs f g n"
    unfolding matches_def candidate_pairs_def lenst
    by (intro arg_cong [where f = concat] map_cong refl filter_cong) (auto simp: cand)
  have m_in: "\<And>m. m \<in> set matches \<Longrightarrow> fst m < n \<and> snd m < n"
    by (auto simp: matches_def lenst)
  have ins: "mapM_e (\<lambda>m. bind_e (take_pos st (fst m)) (\<lambda>t.
                            bind_e (take_pos L (fst m)) (\<lambda>l. Inr (t, l)))) matches
             = Inr (map (\<lambda>m. (st ! fst m, L ! fst m)) matches)"
    by (rule mapM_e_Inr) (use m_in lenst in \<open>simp add: take_pos_def\<close>)
  have outs: "mapM_e (\<lambda>m. bind_e (take_pos st (snd m)) (\<lambda>t.
                            bind_e (take_pos L (snd m)) (\<lambda>l. Inr (t, l)))) matches
             = Inr (map (\<lambda>m. (st ! snd m, L ! snd m)) matches)"
    by (rule mapM_e_Inr) (use m_in lenst in \<open>simp add: take_pos_def\<close>)
  have res: "get_candidates s = Inr (map (\<lambda>m. (st ! fst m, L ! fst m)) matches,
                                     map (\<lambda>m. (st ! snd m, L ! snd m)) matches)"
  proof (rule get_candidates_steps)
    show "labels (trajs s) = Inr L" using lbl by (simp add: L_def)
    show "segment_idxs (trajs s) = Inr (map (\<lambda>l. (l, map fst (segment f l))) L)"
      using segs by (simp add: f_def)
    show "mapM_e (\<lambda>kv. seg_bounds (snd kv)) (map (\<lambda>l. (l, map fst (segment f l))) L)
            = Inr (map B L)" by (rule bounds)
    show "map B L \<noteq> []" by (rule ne)
    show "mapM_e (np_take (map fst (map B L))) L = Inr st" using take_st by (simp only: st_def)
    show "mapM_e (np_take (map snd (map B L))) L = Inr sp" using take_sp by (simp only: sp_def)
    show "matches = concat (map (\<lambda>i. map (\<lambda>j. (i, j))
                 (filter (\<lambda>j. gap_ok (maximum_gap s) (st ! i) (sp ! j)) [0..<length L]))
                 [0..<length L])" by (simp only: matches_def g_def)
    show "mapM_e (\<lambda>m. bind_e (take_pos (map fst (map B L)) (fst m)) (\<lambda>t.
                            bind_e (take_pos L (fst m)) (\<lambda>l. Inr (t, l)))) matches
             = Inr (map (\<lambda>m. (st ! fst m, L ! fst m)) matches)"
      using ins by (simp only: st_def)
    show "mapM_e (\<lambda>m. bind_e (take_pos (map fst (map B L)) (snd m)) (\<lambda>t.
                            bind_e (take_pos L (snd m)) (\<lambda>l. Inr (t, l)))) matches
             = Inr (map (\<lambda>m. (st ! snd m, L ! snd m)) matches)"
      using outs by (simp only: st_def)
  qed
  have k1: "map (\<lambda>k. (Some (fst k), snd k)) (map (\<lambda>m. (st ! fst m, L ! fst m)) matches)
            = map (\<lambda>(i, j). (start_time f (IntV (int i)), IntV (int i))) matches"
  proof -
    have "\<And>m. m \<in> set matches \<Longrightarrow>
           (Some (st ! fst m), L ! fst m) = (start_time f (IntV (int (fst m))), IntV (int (fst m)))"
    proof -
      fix m assume "m \<in> set matches"
      then have i: "fst m < n" using m_in by blast
      then have "IntV (int (fst m)) \<in> set L" by (auto simp: L_def)
      then show "(Some (st ! fst m), L ! fst m) = (start_time f (IntV (int (fst m))), IntV (int (fst m)))"
        using bnd i st_nth L_nth by simp
    qed
    then show ?thesis by (auto simp: case_prod_unfold)
  qed
  have k2: "map snd (map (\<lambda>m. (st ! snd m, L ! snd m)) matches)
            = map (\<lambda>(i, j). IntV (int j)) matches"
    using m_in L_nth by (auto simp: case_prod_unfold)
  show ?thesis
    using res k1 k2 unfolding m_eq f_def g_def by blast
qed

theorem get_candidates_from_zero_labels_witness:
  "\<exists>ins outs. get_candidates (new_solver two_segments 5 [''x'']) = Inr (ins, outs)
      \<and> map (\<lambda>k. (Some (fst k), snd k)) ins = [(Some (IntV 5), IntV 1)]
      \<and> map snd outs = [IntV 0]"
proof -
  have a: "index_names (trajs (new_solver two_segments 5 [''x''])) = [''t_stamp'', ''label'']"
    by (simp add: new_solver_def two_segments_def spots_def)
  have b: "''label'' \<notin> set (columns (trajs (new_solver two_segments 5 [''x''])))"
    by (simp add: new_solver_def two_segments_def spots_def)
  have c: "wf_frame (trajs (new_solver two_segments 5 [''x'']))"
    by (simp add: new_solver_def two_segments_def spots_def wf_frame_def)
  have d: "labels (trajs (new_solver two_segments 5 [''x''])) = Inr (map (\<lambda>i. IntV (int i)) [0..<2])"
    by code_simp
  have e: "(0::nat) < 2" by simp
  have p: "candidate_pairs (trajs (new_solver two_segments 5 [''x'']))
             (maximum_gap (new_solver two_segments 5 [''x''])) 2 = [(1, 0)]"
    by code_simp
  have q: "start_time (trajs (new_solver two_segments 5 [''x''])) (IntV 1) = Some (IntV 5)"
    by code_simp
  from get_candidates_from_zero_labels [OF a b c d e] show ?thesis
    unfolding p by (simp add: q)
qed

text \<open>
  Claim C1 as stated fails on a table whose labels do not start at zero: the segments
  labelled 1 and 2 are a gap of 4 apart, inside the window of 5, and the code raises.
\<close>

theorem get_candidates_labels_not_from_zero:
  "get_candidates (new_solver (spots [(0, 1), (1, 1), (5, 2), (6, 2)]) 5 [''x'']) = Inl IndexError
   \<and> is_candidate (spots [(0, 1), (1, 1), (5, 2), (6, 2)]) 5 (IntV 1) (IntV 2)"
  by code_simp

text \<open>
  The time in an \<^verbatim>\<open>out\<close> key is read from \<^verbatim>\<open>start_times\<close>: on the two-segment
  table the out segment 0 stops at frame 2 and its key is \<open>(0, 0)\<close>.
\<close>

lemma get_candidates_out_key_is_start:
  "get_candidates (new_solver two_segments 5 [''x'']) = Inr ([(IntV 5, IntV 1)], [(IntV 0, IntV 0)])
   \<and> stop_time two_segments (IntV 0) = Some (IntV 2)"
  by code_simp

section \<open>Assignment to labels\<close>

lemma bind_e_Inr_iff: "bind_e m f = Inr y \<longleftrightarrow> (\<exists>x. m = Inr x \<and> f x = Inr y)"
  by (cases m) simp_all

lemma assign_loop_append:
  "assign_loop k (ps @ qs) un = bind_e (assign_loop k ps un) (assign_loop k qs)"
proof (induction ps arbitrary: un)
  case Nil
  show ?case by simp
next
  case (Cons p ps)
  obtain i j where p: "p = (i, j)" by (cases p)
  show ?case
  proof (cases "k \<le> j")
    case True
    show ?thesis
    proof (cases "val_max un")
      case (Inl e) with True p show ?thesis by simp
    next
      case (Inr m)
      show ?thesis
      proof (cases "store un i (val_add m (IntV 1))")
        case (Inl e) with True p Inr show ?thesis by simp
      next
        case (Inr u) with True p \<open>val_max un = Inr m\<close> Cons.IH show ?thesis by simp
      qed
    qed
  next
    case False
    show ?thesis
    proof (cases "take_pos un j")
      case (Inl e) with False p show ?thesis by simp
    next
      case (Inr v)
      show ?thesis
      proof (cases "store un i v")
        case (Inl e) with False p Inr show ?thesis by simp
      next
        case (Inr u) with False p \<open>take_pos un j = Inr v\<close> Cons.IH show ?thesis by simp
      qed
    qed
  qed
qed

lemma enumerate_from0_snoc:
  "enumerate_from0 (xs @ [x]) = enumerate_from0 xs @ [(length xs, x)]"
  by (simp add: enumerate_from0_def)

lemma foldl_max_ge:
  "num x \<le> num (foldl (\<lambda>a b. if num a < num b then b else a) x ys)
   \<and> (\<forall>y\<in>set ys. num y \<le> num (foldl (\<lambda>a b. if num a < num b then b else a) x ys))"
proof (induction ys arbitrary: x)
  case Nil
  show ?case by simp
next
  case (Cons y ys)
  from Cons.IH [of "if num x < num y then y else x"] show ?case
    by (auto split: if_splits)
qed

lemma val_max_ge: "val_max xs = Inr m \<Longrightarrow> x \<in> set xs \<Longrightarrow> num x \<le> num m"
  using foldl_max_ge by (cases xs) (auto simp: val_max_def)

lemma num_val_add_one: "num (val_add m (IntV 1)) = num m + 1"
  by (cases m) simp_all

lemma assign_step_diag:
  assumes "assign_loop k [(n, x)] u = Inr u'" and "k \<le> x"
  shows "n < length u \<and> (\<exists>m. val_max u = Inr m \<and> u' = u[n := val_add m (IntV 1)])"
  using assms by (auto simp: bind_e_Inr_iff store_def split: if_splits)

lemma assign_step_link:
  assumes "assign_loop k [(n, x)] u = Inr u'" and "x < k"
  shows "n < length u \<and> x < length u \<and> u' = u[n := u ! x]"
  using assms by (auto simp: bind_e_Inr_iff store_def take_pos_def split: if_splits)

lemma labelled_by_loop_iff:
  "labelled_by_loop k links un un' \<longleftrightarrow>
     length un' = length un \<and>
     (\<forall>p<length un.
        (p < length links \<and> k \<le> links ! p \<longrightarrow>
           (\<forall>q<p. num (un' ! q) < num (un' ! p))
           \<and> (\<forall>q. p \<le> q \<and> q < length un \<longrightarrow> num (un ! q) < num (un' ! p)))
      \<and> (p < length links \<and> links ! p < k \<longrightarrow>
           un' ! p = (if links ! p < p then un' ! (links ! p) else un ! (links ! p)))
      \<and> (length links \<le> p \<longrightarrow> un' ! p = un ! p))"
  unfolding labelled_by_loop_def list_all_iff by (auto simp: not_le not_less)

lemma assign_loop_inv:
  "assign_loop k (enumerate_from0 links) un = Inr un' \<Longrightarrow>
     labelled_by_loop k links un un' \<and> (links \<noteq> [] \<longrightarrow> length links \<le> length un)"
proof (induction links arbitrary: un' rule: rev_induct)
  case Nil
  then show ?case by (simp add: enumerate_from0_def labelled_by_loop_iff)
next
  case (snoc x links)
  define n where "n = length links"
  from snoc.prems obtain u where u: "assign_loop k (enumerate_from0 links) un = Inr u"
      and step: "assign_loop k [(n, x)] u = Inr un'"
    by (auto simp: enumerate_from0_snoc assign_loop_append bind_e_Inr_iff n_def)
  from snoc.IH [OF u] have inv: "labelled_by_loop k links un u" by blast
  then have len: "length u = length un" by (simp add: labelled_by_loop_iff)
  have rest: "\<And>p. n \<le> p \<Longrightarrow> p < length un \<Longrightarrow> u ! p = un ! p"
    using inv by (simp add: labelled_by_loop_iff n_def)
  show ?case
  proof (cases "k \<le> x")
    case True
    from assign_step_diag [OF step True] obtain m where
      nlt: "n < length u" and m: "val_max u = Inr m" and u': "un' = u[n := val_add m (IntV 1)]"
      by blast
    have big: "\<And>q. q < length u \<Longrightarrow> num (u ! q) < num (val_add m (IntV 1))"
    proof -
      fix q assume "q < length u"
      then have "u ! q \<in> set u" by simp
      from val_max_ge [OF m this] show "num (u ! q) < num (val_add m (IntV 1))"
        by (simp add: num_val_add_one)
    qed
    have "labelled_by_loop k (links @ [x]) un un'"
      unfolding labelled_by_loop_iff
    proof (intro conjI allI impI)
      show "length un' = length un" using u' len by simp
    next
      fix p q assume "p < length un" "p < length (links @ [x]) \<and> k \<le> (links @ [x]) ! p" "q < p"
      then show "num (un' ! q) < num (un' ! p)"
        using inv u' nlt len big [of q]
        by (cases "p = n") (auto simp: labelled_by_loop_iff n_def nth_append)
    next
      fix p q assume "p < length un" "p < length (links @ [x]) \<and> k \<le> (links @ [x]) ! p"
         "p \<le> q \<and> q < length un"
      then show "num (un ! q) < num (un' ! p)"
        using inv u' nlt len big [of q] rest [of q]
        by (cases "p = n") (auto simp: labelled_by_loop_iff n_def nth_append)
    next
      fix p assume "p < length un" "p < length (links @ [x]) \<and> (links @ [x]) ! p < k"
      then show "un' ! p = (if (links @ [x]) ! p < p then un' ! ((links @ [x]) ! p)
                            else un ! ((links @ [x]) ! p))"
        using inv u' nlt len True
        by (cases "p = n") (auto simp: labelled_by_loop_iff n_def nth_append)
    next
      fix p assume "p < length un" "length (links @ [x]) \<le> p"
      then show "un' ! p = un ! p"
        using u' rest [of p] by (simp add: n_def)
    qed
    with nlt len show ?thesis by (simp add: n_def)
  next
    case False
    then have xk: "x < k" by simp
    from assign_step_link [OF step xk] have
      nlt: "n < length u" and xlt: "x < length u" and u': "un' = u[n := u ! x]"
      by blast+
    have "labelled_by_loop k (links @ [x]) un un'"
      unfolding labelled_by_loop_iff
    proof (intro conjI allI impI)
      show "length un' = length un" using u' len by simp
    next
      fix p q assume "p < length un" "p < length (links @ [x]) \<and> k \<le> (links @ [x]) ! p" "q < p"
      then show "num (un' ! q) < num (un' ! p)"
        using inv u' nlt len xk
        by (cases "p = n") (auto simp: labelled_by_loop_iff n_def nth_append)
    next
      fix p q assume "p < length un" "p < length (links @ [x]) \<and> k \<le> (links @ [x]) ! p"
         "p \<le> q \<and> q < length un"
      then show "num (un ! q) < num (un' ! p)"
        using inv u' nlt len xk
        by (cases "p = n") (auto simp: labelled_by_loop_iff n_def nth_append)
    next
      fix p assume p: "p < length un" "p < length (links @ [x]) \<and> (links @ [x]) ! p < k"
      show "un' ! p = (if (links @ [x]) ! p < p then un' ! ((links @ [x]) ! p)
                            else un ! ((links @ [x]) ! p))"
      proof (cases "p = n")
        case True
        then show ?thesis
          using u' nlt xlt len rest [of x] by (auto simp: n_def nth_append)
      next
        case False
        then show ?thesis
          using p inv u' nlt len
          by (auto simp: labelled_by_loop_iff n_def nth_append)
      qed
    next
      fix p assume "p < length un" "length (links @ [x]) \<le> p"
      then show "un' ! p = un ! p"
        using u' rest [of p] by (simp add: n_def)
    qed
    with nlt len show ?thesis by (simp add: n_def)
  qed
qed

text \<open>
  A link to an in segment that comes later in the label order, and that is itself matched
  to its diagonal alternative: the out segment takes the in segment's old label, the in
  segment a fresh one afterwards, and the two end with different labels.
\<close>

lemma forward_link_not_merged:
  assumes run: "assign_loop k (enumerate_from0 links) un = Inr un'"
      and p: "p < length links" and link: "links ! p < k" and later: "p < links ! p"
      and q: "links ! p < length links" and diag: "k \<le> links ! (links ! p)"
  shows "un' ! p = un ! (links ! p) \<and> num (un' ! p) < num (un' ! (links ! p))"
proof -
  from assign_loop_inv [OF run] p
  have inv: "labelled_by_loop k links un un'" and len: "length links \<le> length un"
    by auto
  from p q len have pl: "p < length un" and ql: "links ! p < length un" by simp_all
  from inv pl p link later have a: "un' ! p = un ! (links ! p)"
    unfolding labelled_by_loop_iff by simp
  from inv ql q diag have "num (un ! (links ! p)) < num (un' ! (links ! p))"
    unfolding labelled_by_loop_iff by auto
  with a show ?thesis by simp
qed

lemma assign_link_to_later_segment:
  "new_labels_of ((new_solver two_segments 5 [''x''])\<lparr>cm := Some (solved [1, 3, 0, 2] 2)\<rparr>)
     = Inr [IntV 1, IntV 1, IntV 1, IntV 2, IntV 2, IntV 2]"
  by code_simp


section \<open>The alternative cost\<close>

lemma assign_keeps_solver: "assign s = Inr (tr, s') \<Longrightarrow> s' = s\<lparr>trajs := tr\<rparr>"
  by (auto simp: assign_def relabel_trajs_def bind_e_Inr_iff)

lemma track_with_candidates:
  assumes tr: "track env s = Inr (tr, s')"
      and cand: "get_candidates s = Inr (idxs_in, idxs_out)"
      and ne: "idxs_in \<noteq> []"
  shows "\<exists>lbls tbl lb bb db.
           labels (trajs s) = Inr lbls
         \<and> LinkBlock env tbl idxs_in idxs_out lbls lbls = Inr lb
         \<and> birth_context s' = Some (np_percentile (compressed lb) 99)
         \<and> death_context s' = Some (np_percentile (compressed lb) 99)
         \<and> DiagBlock_birth env (np_percentile (compressed lb) 99) lbls = Inr bb
         \<and> DiagBlock_death env (np_percentile (compressed lb) 99) lbls = Inr db
         \<and> link_block s' = Some lb \<and> birth_block s' = Some bb \<and> death_block s' = Some db"
proof -
  from cand obtain lbls where l: "labels (trajs s) = Inr lbls"
    using candidates_need_labels by blast
  from tr l cand ne obtain old tbl lb bb db c where
        "get_level_values ''label'' (trajs s) = Inr old"
    and "setitem ''new_label'' (map (\<lambda>v. FloatV (num v)) old) (trajs s) = Inr tbl"
    and lb: "LinkBlock env tbl idxs_in idxs_out lbls lbls = Inr lb"
    and bb: "DiagBlock_birth env (alternative_cost lb) lbls = Inr bb"
    and db: "DiagBlock_death env (alternative_cost lb) lbls = Inr db"
    and "CostMatrix_solve env lb db bb = Inr c"
    and a: "assign (s\<lparr>link_context := Some (idxs_in, idxs_out), trajs := tbl,
                      link_block := Some lb, birth_context := Some (alternative_cost lb),
                      death_context := Some (alternative_cost lb),
                      birth_block := Some bb, death_block := Some db, cm := Some c\<rparr>)
              = Inr (tr, s')"
    by (auto simp: track_def Let_def bind_e_Inr_iff)
  from assign_keeps_solver [OF a] lb bb db l show ?thesis
    by (auto simp: alternative_cost_def)
qed

text \<open>
  Claim C3, amended. In a \<^verbatim>\<open>track\<close> call with at least one candidate pair that
  runs to its end, the alternative cost is the 99th percentile of the valid entries of the
  LINK block, 99 being a constant in the body of \<^verbatim>\<open>track\<close> and no setting of the
  solver; that one value is stored in the context of the birth and of the death cost
  function, and both diagonal blocks are built from it.
\<close>

theorem track_alternative_cost:
  assumes "track env s = Inr (tr, s')"
      and "get_candidates s = Inr (idxs_in, idxs_out)"
      and "idxs_in \<noteq> []"
  shows "\<exists>lbls tbl lb bb db.
           labels (trajs s) = Inr lbls
         \<and> LinkBlock env tbl idxs_in idxs_out lbls lbls = Inr lb
         \<and> birth_context s' = Some (np_percentile (compressed lb) 99)
         \<and> death_context s' = Some (np_percentile (compressed lb) 99)
         \<and> DiagBlock_birth env (np_percentile (compressed lb) 99) lbls = Inr bb
         \<and> DiagBlock_death env (np_percentile (compressed lb) 99) lbls = Inr db
         \<and> link_block s' = Some lb \<and> birth_block s' = Some bb \<and> death_block s' = Some db"
  using assms by (rule track_with_candidates)

lemma p99: "np_percentile (compressed link_costs) 99 = Some 99"
  by (simp add: np_percentile_def compressed_def link_costs_def List.map_filter_def)

lemma p50: "np_percentile (compressed link_costs) 50 = Some 50"
  by (simp add: np_percentile_def compressed_def link_costs_def List.map_filter_def)

theorem track_alternative_cost_witness:
  "\<exists>tr s'. track (fixed_matrices link_costs [1, 3, 0, 2]) (new_solver two_segments 5 [''x''])
              = Inr (tr, s')
     \<and> birth_context s' = Some (Some 99) \<and> death_context s' = Some (Some 99)
     \<and> birth_block s' = Some [[Some 99, None], [None, Some 99]]"
proof -
  have ok: "case track (fixed_matrices link_costs [1, 3, 0, 2])
                   (new_solver two_segments 5 [''x'']) of Inr _ \<Rightarrow> True | Inl _ \<Rightarrow> False"
    by code_simp
  then obtain tr s' where
    t: "track (fixed_matrices link_costs [1, 3, 0, 2]) (new_solver two_segments 5 [''x''])
              = Inr (tr, s')"
    by (auto split: sum.splits)
  have c: "get_candidates (new_solver two_segments 5 [''x''])
             = Inr ([(IntV 5, IntV 1)], [(IntV 0, IntV 0)])"
    by code_simp
  have ne: "[(IntV 5, IntV 1)] \<noteq> []" by simp
  have l: "labels (trajs (new_solver two_segments 5 [''x''])) = Inr [IntV 0, IntV 1]"
    by code_simp
  from track_alternative_cost [OF t c ne] l
  have "birth_context s' = Some (Some 99) \<and> death_context s' = Some (Some 99)
        \<and> birth_block s' = Some [[Some 99, None], [None, Some 99]]"
    by (auto simp: fixed_matrices_def p99 diag_mat_def)
  with t show ?thesis by blast
qed

text \<open>
  Claim C3 as stated calls the percentile configurable. No choice of the solver's settings
  (\<^verbatim>\<open>maximum_gap\<close>, \<^verbatim>\<open>coords\<close>) makes \<^verbatim>\<open>track\<close> seed the 50th percentile of
  the link costs on the two-segment table.
\<close>

theorem percentile_not_configurable:
  "\<not> (\<exists>g cs. seeded_cost (track (fixed_matrices link_costs [1, 3, 0, 2])
                            (new_solver two_segments g cs))
               = Some (np_percentile (compressed link_costs) 50))"
proof
  assume "\<exists>g cs. seeded_cost (track (fixed_matrices link_costs [1, 3, 0, 2])
                            (new_solver two_segments g cs))
               = Some (np_percentile (compressed link_costs) 50)"
  then obtain g cs where h: "seeded_cost (track (fixed_matrices link_costs [1, 3, 0, 2])
                            (new_solver two_segments g cs)) = Some (Some 50)"
    by (auto simp: p50)
  then obtain tr s' where t: "track (fixed_matrices link_costs [1, 3, 0, 2])
                            (new_solver two_segments g cs) = Inr (tr, s')"
      and b: "birth_context s' = Some (Some 50)"
    by (auto simp: seeded_cost_def split: sum.splits)
  then obtain ci co where c: "get_candidates (new_solver two_segments g cs) = Inr (ci, co)"
    by (cases "get_candidates (new_solver two_segments g cs)")
       (auto simp: track_def bind_e_Inr_iff)
  show False
  proof (cases "ci = []")
    case True
    with t c have "s' = (new_solver two_segments g cs)\<lparr>link_context := Some (ci, co)\<rparr>"
      by (auto simp: track_def bind_e_Inr_iff)
    with b show False by (simp add: new_solver_def)
  next
    case False
    from track_with_candidates [OF t c False] have
      "birth_context s' = Some (np_percentile (compressed link_costs) 99)"
      by (auto simp: fixed_matrices_def)
    with b show False by (simp add: p99)
  qed
qed

section \<open>Relabelling and the keys\<close>

lemma index_of_less_iff: "index_of x xs < length xs \<longleftrightarrow> x \<in> set xs"
  by (induction xs) auto

lemma nth_index_of: "x \<in> set xs \<Longrightarrow> xs ! index_of x xs = x"
  by (induction xs) auto

lemma index_of_nth: "distinct xs \<Longrightarrow> j < length xs \<Longrightarrow> index_of (xs ! j) xs = j"
proof (induction xs arbitrary: j)
  case Nil
  then show ?case by simp
next
  case (Cons a xs)
  then show ?case by (cases j) auto
qed

lemma index_of_append_new: "x \<notin> set xs \<Longrightarrow> index_of x (xs @ [x]) = length xs"
  by (induction xs) auto

lemma length_remove_nth: "k < length xs \<Longrightarrow> length (remove_nth k xs) = length xs - 1"
proof (induction k xs rule: remove_nth.induct)
  case (3 n x xs)
  then show ?case by (cases xs) auto
qed simp_all

lemma remove_nth_last: "length xs = n \<Longrightarrow> remove_nth n (xs @ [v]) = xs"
  by (induction xs arbitrary: n) auto

lemma distinct_unique: "distinct (unique xs)"
  by (induction xs rule: unique.induct) auto

lemma length_unique_card: "length (unique xs) = card (set xs)"
  using distinct_card [OF distinct_unique, of xs] by simp

lemma map2_nested:
  "map2 f xs (map2 g xs ys) = map2 (\<lambda>x y. f x (g x y)) xs ys"
  by (induction xs arbitrary: ys) (auto split: list.splits simp: zip_Cons1)

lemma map2_second: "length xs = length ys \<Longrightarrow> map2 (\<lambda>x y. y) xs ys = ys"
  by (induction xs ys rule: list_induct2) simp_all

lemma map2_first: "length xs = length ys \<Longrightarrow> map2 (\<lambda>x y. g x) xs ys = map g xs"
  by (induction xs ys rule: list_induct2) simp_all

lemma map2_cong_left:
  "(\<And>x y. x \<in> set xs \<Longrightarrow> f x y = g x y) \<Longrightarrow> map2 f xs ys = map2 g xs ys"
  by (rule map_cong [OF refl]) (auto dest: set_zip_leftD)

lemma renumber_prefix:
  assumes "distinct (U :: val list)" and "j \<le> length U"
      and "length olds = length (init :: 16 word list)"
  shows "foldl (\<lambda>nu (n, uv). map2 (\<lambda>old cur. if old = uv then of_nat n else cur) olds nu)
               init (take j (enumerate_from0 U))
         = map2 (\<lambda>old cur. if index_of old U < j then of_nat (index_of old U) else cur) olds init"
  using assms(2)
proof (induction j)
  case 0
  show ?case using assms(3) by (simp add: map2_second)
next
  case (Suc j)
  then have j: "j < length U" by simp
  have tk: "take (Suc j) (enumerate_from0 U) = take j (enumerate_from0 U) @ [(j, U ! j)]"
    using j by (simp add: enumerate_from0_def take_Suc_conv_app_nth)
  have pt: "\<And>old cur. (if old = U ! j then of_nat j
                         else if index_of old U < j then of_nat (index_of old U)
                         else (cur :: 16 word))
                     = (if index_of old U < Suc j then of_nat (index_of old U) else cur)"
  proof -
    fix old :: val and cur :: "16 word"
    show "(if old = U ! j then of_nat j
           else if index_of old U < j then of_nat (index_of old U) else cur)
          = (if index_of old U < Suc j then of_nat (index_of old U) else cur)"
    proof (cases "old = U ! j")
      case True
      then show ?thesis using index_of_nth [OF assms(1) j] by simp
    next
      case False
      have "index_of old U \<noteq> j"
      proof
        assume e: "index_of old U = j"
        with j have "old \<in> set U" using index_of_less_iff [of old U] by simp
        from nth_index_of [OF this] e False show False by simp
      qed
      with False show ?thesis by (simp add: less_Suc_eq)
    qed
  qed
  show ?case
    using Suc.IH j by (simp add: tk map2_nested pt)
qed

lemma length_renumber: "length (renumber olds) = length olds"
proof -
  have "\<And>init ps. length init = length olds \<Longrightarrow>
          length (foldl (\<lambda>nu (n, uv). map2 (\<lambda>old cur. if old = uv then of_nat n else cur) olds nu)
                        (init :: 16 word list) (ps :: (nat \<times> val) list)) = length olds"
  proof -
    fix init :: "16 word list" and ps :: "(nat \<times> val) list"
    show "length init = length olds \<Longrightarrow>
          length (foldl (\<lambda>nu (n, uv). map2 (\<lambda>old cur. if old = uv then of_nat n else cur) olds nu)
                        init ps) = length olds"
      by (induction ps arbitrary: init) (auto simp: case_prod_unfold)
  qed
  then show ?thesis by (simp add: renumber_def)
qed

lemma renumber_eq:
  "renumber olds = map (\<lambda>l. of_nat (index_of l (unique olds))) olds"
proof -
  have "renumber olds =
          map2 (\<lambda>old cur. if index_of old (unique olds) < length (unique olds)
                           then of_nat (index_of old (unique olds)) else cur)
               olds (map astype_uint16 olds)"
    using renumber_prefix [OF distinct_unique, of "length (unique olds)" olds olds
                             "map astype_uint16 olds"]
    by (simp add: renumber_def enumerate_from0_def)
  also have "\<dots> = map (\<lambda>l. of_nat (index_of l (unique olds))) olds"
  proof -
    have "map2 (\<lambda>old cur. if index_of old (unique olds) < length (unique olds)
                           then of_nat (index_of old (unique olds)) else cur)
               olds (map astype_uint16 olds)
          = map2 (\<lambda>old cur. of_nat (index_of old (unique olds)) :: 16 word)
               olds (map astype_uint16 olds)"
      by (rule map2_cong_left) (simp add: index_of_less_iff)
    then show ?thesis by (simp add: map2_first)
  qed
  finally show ?thesis .
qed

lemma wf_rowD:
  "wf_frame f \<Longrightarrow> r \<in> set (rows f) \<Longrightarrow>
     length (fst r) = length (index_names f) \<and> length (snd r) = length (columns f)"
  by (simp add: wf_frame_def list_all_iff)

lemma set_then_append:
  assumes wf: "wf_frame f" and len: "length vs = length (rows f)"
  shows "\<exists>f2. bind_e (setitem c vs f) (set_index_append c) = Inr f2
           \<and> index_names f2 = index_names f @ [c]
           \<and> map fst (rows f2) = map2 (\<lambda>v r. fst r @ [v]) vs (rows f)
           \<and> wf_frame f2"
proof (cases "c \<in> set (columns f)")
  case True
  define k where "k = index_of c (columns f)"
  have k: "k < length (columns f)" using True by (simp add: k_def index_of_less_iff)
  define f2 where "f2 = f\<lparr>index_names := index_names f @ [c],
                           columns := remove_nth k (columns f),
                           rows := map (\<lambda>r. (fst r @ [snd r ! k], remove_nth k (snd r)))
                                     (map2 (\<lambda>v r. (fst r, (snd r)[k := v])) vs (rows f))\<rparr>"
  have run: "bind_e (setitem c vs f) (set_index_append c) = Inr f2"
    using True len by (simp add: setitem_def set_index_append_def k_def f2_def Let_def)
  have keys: "map fst (rows f2) = map2 (\<lambda>v r. fst r @ [v]) vs (rows f)"
    unfolding f2_def using k wf
    by (auto simp: dest!: set_zip_rightD dest: wf_rowD)
  have "wf_frame f2"
    unfolding wf_frame_def list_all_iff f2_def using k wf
    by (auto simp: length_remove_nth dest!: set_zip_rightD dest: wf_rowD)
  with run keys show ?thesis by (auto simp: f2_def)
next
  case False
  define f2 where "f2 = f\<lparr>index_names := index_names f @ [c],
                           columns := remove_nth (length (columns f)) (columns f @ [c]),
                           rows := map (\<lambda>r. (fst r @ [snd r ! length (columns f)],
                                             remove_nth (length (columns f)) (snd r)))
                                     (map2 (\<lambda>v r. (fst r, snd r @ [v])) vs (rows f))\<rparr>"
  have run: "bind_e (setitem c vs f) (set_index_append c) = Inr f2"
    using False len
    by (simp add: setitem_def set_index_append_def f2_def Let_def index_of_append_new)
  have keys: "map fst (rows f2) = map2 (\<lambda>v r. fst r @ [v]) vs (rows f)"
    unfolding f2_def using wf
    by (auto simp: nth_append dest!: set_zip_rightD dest: wf_rowD)
  have "wf_frame f2"
    unfolding wf_frame_def list_all_iff f2_def using wf
    by (auto simp: remove_nth_last dest!: set_zip_rightD dest: wf_rowD)
  with run keys show ?thesis by (auto simp: f2_def)
qed

lemma uint_of_nat_16: "n < 65536 \<Longrightarrow> uint (of_nat n :: 16 word) = int n"
  by (simp add: uint_nat unat_of_nat)

lemma replace_label_level:
  assumes idx: "index_names f = [''t_stamp'', ''label'']"
      and wf: "wf_frame f" and len: "length vs = length (rows f)"
  shows "\<exists>f2 f4. bind_e (setitem ''new_label'' vs f) (set_index_append ''new_label'') = Inr f2
           \<and> bind_e (reset_index_drop ''label'' f2) (set_names [''t_stamp'', ''label'']) = Inr f4
           \<and> index_names f4 = [''t_stamp'', ''label''] \<and> wf_frame f4
           \<and> keys_of f4 = new_keys vs f"
proof -
  from set_then_append [OF wf len, of "''new_label''"] obtain f2 where
        run: "bind_e (setitem ''new_label'' vs f) (set_index_append ''new_label'') = Inr f2"
    and i2: "index_names f2 = [''t_stamp'', ''label'', ''new_label'']"
    and k2: "map fst (rows f2) = map2 (\<lambda>v r. fst r @ [v]) vs (rows f)"
    and wf2: "wf_frame f2"
    using idx by auto
  define f4 where "f4 = f2\<lparr>index_names := [''t_stamp'', ''label''],
                           rows := map (\<lambda>r. (remove_nth 1 (fst r), snd r)) (rows f2)\<rparr>"
  have lev: "get_level_number f2 ''label'' = Inr 1"
    using i2 by (simp add: get_level_number_def)
  have drop: "bind_e (reset_index_drop ''label'' f2) (set_names [''t_stamp'', ''label'']) = Inr f4"
    using lev i2 by (simp add: reset_index_drop_def set_names_def f4_def)
  have wf4: "wf_frame f4"
    using wf2 i2 unfolding wf_frame_def list_all_iff f4_def
    by (auto simp: length_remove_nth)
  have "keys_of f4 = map (remove_nth 1) (map fst (rows f2))"
    by (simp add: keys_of_def f4_def comp_def)
  also have "\<dots> = map2 (\<lambda>v r. remove_nth 1 (fst r @ [v])) vs (rows f)"
    by (simp add: k2 comp_def case_prod_unfold)
  also have "\<dots> = new_keys vs f"
    unfolding new_keys_def
  proof (rule map_cong [OF refl])
    fix x assume "x \<in> set (zip vs (rows f))"
    then have "snd x \<in> set (rows f)" by (metis prod.collapse set_zip_rightD)
    from wf_rowD [OF wf this] idx have "length (fst (snd x)) = 2" by simp
    then obtain t l where "fst (snd x) = [t, l]"
      by (cases "fst (snd x)") (auto simp: length_Suc_conv)
    then show "(case x of (v, r) \<Rightarrow> remove_nth 1 (fst r @ [v]))
             = (case x of (v, r) \<Rightarrow> [fst r ! 0, v])"
      by (simp add: case_prod_unfold)
  qed
  finally have "keys_of f4 = new_keys vs f" .
  with run drop wf4 show ?thesis by (auto simp: f4_def)
qed

lemma relabel_steps_keys:
  assumes idx: "index_names f = [''t_stamp'', ''label'']"
      and wf: "wf_frame f" and len: "length nl = length (rows f)"
  shows "\<exists>f5. relabel_steps (Some nl) f = Inr f5
           \<and> index_names f5 = [''t_stamp'', ''label''] \<and> wf_frame f5
           \<and> mset (keys_of f5) = mset (new_keys nl f)"
proof -
  from replace_label_level [OF idx wf len] obtain f2 f4 where
        a: "bind_e (setitem ''new_label'' nl f) (set_index_append ''new_label'') = Inr f2"
    and b: "bind_e (reset_index_drop ''label'' f2) (set_names [''t_stamp'', ''label'']) = Inr f4"
    and i4: "index_names f4 = [''t_stamp'', ''label'']" and wf4: "wf_frame f4"
    and k4: "keys_of f4 = new_keys nl f"
    by blast
  from a obtain f1 where s1: "setitem ''new_label'' nl f = Inr f1"
    and s2: "set_index_append ''new_label'' f1 = Inr f2"
    by (auto simp: bind_e_Inr_iff)
  from b obtain f3 where s3: "reset_index_drop ''label'' f2 = Inr f3"
    and s4: "set_names [''t_stamp'', ''label''] f3 = Inr f4"
    by (auto simp: bind_e_Inr_iff)
  have run: "relabel_steps (Some nl) f = Inr (sort_index f4)"
    by (simp add: relabel_steps_def s1 s2 s3 s4)
  have "wf_frame (sort_index f4)"
    using wf4 by (simp add: wf_frame_def list_all_iff sort_index_def)
  moreover have "mset (keys_of (sort_index f4)) = mset (new_keys nl f)"
  proof -
    have "mset (map fst (sort_key (\<lambda>r. map num (fst r)) (rows f4))) = mset (map fst (rows f4))"
      by (simp only: mset_map mset_sort)
    also have "\<dots> = mset (new_keys nl f)"
      using k4 by (simp only: keys_of_def)
    finally show ?thesis by (simp add: keys_of_def sort_index_def)
  qed
  ultimately show ?thesis using run i4 by (auto simp: sort_index_def)
qed

lemma map2_of_maps: "map2 h (map g (map p xs)) xs = map (\<lambda>x. h (g (p x)) x) xs"
  by (induction xs) simp_all

lemma relabel_fromzero_on_keys:
  assumes idx: "index_names f = [''t_stamp'', ''label'']" and wf: "wf_frame f"
  shows "\<exists>f'. relabel_fromzero_on ''label'' f = Inr f'
           \<and> index_names f' = [''t_stamp'', ''label''] \<and> wf_frame f'
           \<and> keys_of f' = map (\<lambda>k. [k ! 0, renum (map (\<lambda>k. k ! 1) (keys_of f)) (k ! 1)])
                              (keys_of f)"
proof -
  define olds where "olds = map (\<lambda>r. fst r ! 1) (rows f)"
  define vs where "vs = map (\<lambda>w. IntV (uint w)) (renumber olds)"
  have glv: "get_level_values ''label'' f = Inr olds"
    using idx by (simp add: get_level_values_def get_level_number_def olds_def)
  have len: "length vs = length (rows f)"
    by (simp add: vs_def length_renumber olds_def)
  from replace_label_level [OF idx wf len] obtain f2 f4 where
        a: "bind_e (setitem ''new_label'' vs f) (set_index_append ''new_label'') = Inr f2"
    and b: "bind_e (reset_index_drop ''label'' f2) (set_names [''t_stamp'', ''label'']) = Inr f4"
    and i4: "index_names f4 = [''t_stamp'', ''label'']" and wf4: "wf_frame f4"
    and k4: "keys_of f4 = new_keys vs f"
    by blast
  from a obtain f1 where s1: "setitem ''new_label'' vs f = Inr f1"
    and s2: "set_index_append ''new_label'' f1 = Inr f2"
    by (auto simp: bind_e_Inr_iff)
  have run: "relabel_fromzero_on ''label'' f = Inr f4"
    using b by (simp add: relabel_fromzero_on_def glv vs_def [symmetric] s1 s2)
  have o2: "olds = map (\<lambda>k. k ! 1) (keys_of f)"
    by (simp add: olds_def keys_of_def comp_def)
  have "new_keys vs f
        = map2 (\<lambda>v r. [fst r ! 0, v]) (map (\<lambda>l. renum olds l) (map (\<lambda>r. fst r ! 1) (rows f)))
               (rows f)"
    by (simp add: new_keys_def vs_def renumber_eq renum_def olds_def comp_def)
  also have "\<dots> = map (\<lambda>r. [fst r ! 0, renum olds (fst r ! 1)]) (rows f)"
    by (rule map2_of_maps)
  also have "\<dots> = map (\<lambda>k. [k ! 0, renum olds (k ! 1)]) (keys_of f)"
    by (simp add: keys_of_def comp_def)
  finally show ?thesis using run i4 wf4 k4 o2 by auto
qed

lemma relabel_on_keys:
  assumes idx: "index_names f = [''t_stamp'', ''label'']"
      and wf: "wf_frame f" and len: "length nl = length (rows f)"
  shows "\<exists>K f'. relabel_on (Some nl) f = Inr f'
           \<and> mset K = mset (new_keys nl f)
           \<and> index_names f' = [''t_stamp'', ''label''] \<and> wf_frame f'
           \<and> keys_of f' = map (\<lambda>k. [k ! 0, renum (map (\<lambda>k. k ! 1) K) (k ! 1)]) K"
proof -
  from relabel_steps_keys [OF idx wf len] obtain f5 where
        st: "relabel_steps (Some nl) f = Inr f5"
    and i5: "index_names f5 = [''t_stamp'', ''label'']" and wf5: "wf_frame f5"
    and m5: "mset (keys_of f5) = mset (new_keys nl f)"
    by blast
  from relabel_fromzero_on_keys [OF i5 wf5] obtain f' where
        "relabel_fromzero_on ''label'' f5 = Inr f'"
    and "index_names f' = [''t_stamp'', ''label'']" and "wf_frame f'"
    and "keys_of f' = map (\<lambda>k. [k ! 0, renum (map (\<lambda>k. k ! 1) (keys_of f5)) (k ! 1)])
                          (keys_of f5)"
    by blast
  with st m5 show ?thesis by (auto simp: relabel_on_def)
qed

lemma new_keys_labels: "length nl = length (rows f) \<Longrightarrow> map (\<lambda>k. k ! 1) (new_keys nl f) = nl"
proof -
  assume "length nl = length (rows f)"
  then have "map2 (\<lambda>v r. v) nl (rows f) = map (\<lambda>v. v) nl"
    by (rule map2_first)
  then show ?thesis by (simp add: new_keys_def comp_def case_prod_unfold)
qed


lemma index_image: "distinct U \<Longrightarrow> (\<lambda>l. index_of l U) ` set U = {0..<length U}"
proof
  show "(\<lambda>l. index_of l U) ` set U \<subseteq> {0..<length U}"
    by (auto simp: index_of_less_iff)
next
  assume d: "distinct U"
  show "{0..<length U} \<subseteq> (\<lambda>l. index_of l U) ` set U"
  proof
    fix j assume "j \<in> {0..<length U}"
    then have j: "j < length U" by simp
    from index_of_nth [OF d j] have "j = index_of (U ! j) U" by simp
    moreover have "U ! j \<in> set U" using j by simp
    ultimately show "j \<in> (\<lambda>l. index_of l U) ` set U" by blast
  qed
qed

lemma renum_small:
  assumes "length (unique ol) \<le> 65536" and "l \<in> set ol"
  shows "renum ol l = IntV (int (index_of l (unique ol)))"
proof -
  from assms(2) have "index_of l (unique ol) < length (unique ol)"
    by (simp add: index_of_less_iff)
  with assms(1) have "index_of l (unique ol) < 65536" by simp
  then show ?thesis by (simp add: renum_def uint_of_nat_16)
qed








text \<open>
  Claim C6, amended. \<^verbatim>\<open>relabel\<close> does not keep the supplied labels as given: it
  ends with \<^verbatim>\<open>relabel_fromzero\<close>. With one new label per record and at most
  \<open>65536\<close> distinct new labels, the labels of the result are exactly \<open>0, \<dots>, k - 1\<close>,
  \<open>k\<close> being the number of distinct new labels.
\<close>

theorem relabel_numbers_from_zero:
  assumes idx: "index_names f = [''t_stamp'', ''label'']"
      and wf: "wf_frame f" and len: "length nl = length (rows f)"
      and small: "length (unique nl) \<le> 65536"
  shows "\<exists>f'. relabel_on (Some nl) f = Inr f'
           \<and> set (map (\<lambda>k. k ! 1) (keys_of f')) = (\<lambda>i. IntV (int i)) ` {0..<length (unique nl)}"
proof -
  from relabel_on_keys [OF idx wf len] obtain K f' where
        run: "relabel_on (Some nl) f = Inr f'"
    and m: "mset K = mset (new_keys nl f)"
    and k: "keys_of f' = map (\<lambda>k. [k ! 0, renum (map (\<lambda>k. k ! 1) K) (k ! 1)]) K"
    by blast
  define ol where "ol = map (\<lambda>k. k ! 1) K"
  have "mset ol = mset (map (\<lambda>k. k ! 1) (new_keys nl f))"
    unfolding ol_def using m by (metis mset_map)
  then have mol: "mset ol = mset nl" by (simp only: new_keys_labels [OF len])
  then have so: "set ol = set nl" by (rule mset_eq_setD)
  then have lu: "length (unique ol) = length (unique nl)" by (simp add: length_unique_card)
  with small have sm: "length (unique ol) \<le> 65536" by simp
  have "set (map (\<lambda>k. k ! 1) (keys_of f')) = renum ol ` set ol"
    unfolding k ol_def [symmetric] by (auto simp: ol_def)
  also have "\<dots> = (\<lambda>l. IntV (int (index_of l (unique ol)))) ` set ol"
    by (rule image_cong [OF refl]) (simp add: renum_small [OF sm])
  also have "\<dots> = (\<lambda>i. IntV (int i)) ` ((\<lambda>l. index_of l (unique ol)) ` set (unique ol))"
    by (simp add: image_image)
  also have "\<dots> = (\<lambda>i. IntV (int i)) ` {0..<length (unique ol)}"
    by (simp only: index_image [OF distinct_unique])
  finally show ?thesis using run lu by auto
qed

theorem relabel_numbers_from_zero_witness:
  "\<exists>f'. relabel_on (Some [IntV 5, IntV 9]) (spots [(0, 0), (0, 1)]) = Inr f'
      \<and> set (map (\<lambda>k. k ! 1) (keys_of f')) = {IntV 0, IntV 1}"
proof -
  have a: "index_names (spots [(0, 0), (0, 1)]) = [''t_stamp'', ''label'']"
    by (simp add: spots_def)
  have b: "wf_frame (spots [(0, 0), (0, 1)])"
    by (simp add: spots_def wf_frame_def)
  have c: "length [IntV 5, IntV 9] = length (rows (spots [(0, 0), (0, 1)]))"
    by (simp add: spots_def)
  have d: "length (unique [IntV 5, IntV 9]) \<le> 65536" by simp
  have e: "(\<lambda>i. IntV (int i)) ` {0..<length (unique [IntV 5, IntV 9])} = {IntV 0, IntV 1}"
    by (auto simp: atLeastLessThanSuc insert_commute)
  from relabel_numbers_from_zero [OF a b c d] show ?thesis
    unfolding e .
qed

text \<open>
  Claim C6 as stated fails on a one-record table: the supplied label is 5 and the label of
  the result is 0.
\<close>

theorem relabel_does_not_keep_labels:
  "case relabel_on (Some [IntV 5]) (spots [(0, 3)]) of
     Inr f' \<Rightarrow> keys_of f' = [[IntV 0, IntV 0]]
   | Inl _ \<Rightarrow> False"
  by code_simp

section \<open>The inplace flag\<close>

lemma mutate_Inr:
  assumes "mutate a g h = Inr h'" and "a < length h"
  shows "length h' = length h"
    and "g (table (h ! a)) = Inr (table (h' ! a))"
    and "old_indexes (h' ! a) = old_indexes (h ! a)"
    and "\<And>b. b \<noteq> a \<Longrightarrow> h' ! b = h ! b"
    and "\<And>n. n \<le> a \<Longrightarrow> take n h' = take n h"
  using assms by (auto simp: mutate_def bind_e_Inr_iff)

lemma returns_fresh_copy_iff:
  "returns_fresh_copy g self h r h' \<longleftrightarrow>
     take (length h) h' = h \<and>
     (\<exists>a. r = Some a \<and> length h \<le> a \<and> a < length h'
          \<and> g (table (h ! self)) = Inr (table (h' ! a)))"
  by (auto simp: returns_fresh_copy_def split: option.splits)

lemma mutates_in_place_iff:
  "mutates_in_place g self h h' \<longleftrightarrow>
     length h' = length h \<and> (\<forall>b<length h. b \<noteq> self \<longrightarrow> h' ! b = h ! b)
     \<and> g (table (h ! self)) = Inr (table (h' ! self))"
  by (auto simp: mutates_in_place_def list_all_iff)

lemma relabel_fromzero_copy:
  assumes "relabel_fromzero self (Some level) (Some False) h = Inr (r, h')" and "self < length h"
  shows "returns_fresh_copy (relabel_fromzero_on level) self h r h'"
proof -
  from assms(1) obtain h2 where
    m: "mutate (length h) (relabel_fromzero_on level)
          (h @ [\<lparr>table = table (h ! self), old_indexes = None\<rparr>]) = Inr h2"
    and r: "r = Some (length h)" and h': "h' = h2"
    by (auto simp: relabel_fromzero_def self_or_copy_def copy_m_def arg_or_def bind_e_Inr_iff)
  have lt: "length h < length (h @ [\<lparr>table = table (h ! self), old_indexes = None\<rparr>])" by simp
  from mutate_Inr(1,2) [OF m lt] mutate_Inr(5) [OF m lt, of "length h"]
  show ?thesis unfolding returns_fresh_copy_iff r h' by simp
qed

lemma relabel_fromzero_inplace:
  assumes "relabel_fromzero self (Some level) (Some True) h = Inr (r, h')" and "self < length h"
  shows "r = None \<and> mutates_in_place (relabel_fromzero_on level) self h h'"
proof -
  from assms(1) have m: "mutate self (relabel_fromzero_on level) h = Inr h'" and r: "r = None"
    by (auto simp: relabel_fromzero_def self_or_copy_def arg_or_def bind_e_Inr_iff)
  from mutate_Inr(1,2,4) [OF m assms(2)] r show ?thesis
    unfolding mutates_in_place_iff by simp
qed

lemma relabel_copy:
  assumes "relabel self nl inplace h = Inr (r, h')" and "self < length h"
      and "\<not> arg_or True inplace"
  shows "returns_fresh_copy (relabel_on nl) self h r h'"
proof -
  define h1 where "h1 = h @ [\<lparr>table = table (h ! self), old_indexes = None\<rparr>]"
  from assms(1,3) obtain h2 where
    m: "mutate (length h) (relabel_steps nl) h1 = Inr h2"
    and rf: "relabel_fromzero (length h) (Some ''label'') (Some False) h2 = Inr (r, h')"
    by (auto simp: relabel_def self_or_copy_def copy_m_def bind_e_Inr_iff h1_def)
  have lt: "length h < length h1" by (simp add: h1_def)
  from mutate_Inr(1,2) [OF m lt] mutate_Inr(5) [OF m lt, of "length h"]
  have l2: "length h2 = Suc (length h)"
    and t2: "relabel_steps nl (table (h ! self)) = Inr (table (h2 ! length h))"
    and k2: "take (length h) h2 = h"
    by (simp_all add: h1_def)
  have lt2: "length h < length h2" using l2 by simp
  from relabel_fromzero_copy [OF rf lt2] obtain a where
    tk: "take (length h2) h' = h2" and r: "r = Some a" and a: "length h2 \<le> a" "a < length h'"
    and t': "relabel_fromzero_on ''label'' (table (h2 ! length h)) = Inr (table (h' ! a))"
    unfolding returns_fresh_copy_iff by blast
  have "take (length h) h' = take (length h) (take (length h2) h')" using l2 by simp
  with tk k2 have "take (length h) h' = h" by simp
  moreover have "relabel_on nl (table (h ! self)) = Inr (table (h' ! a))"
    using t2 t' by (simp add: relabel_on_def)
  ultimately show ?thesis
    unfolding returns_fresh_copy_iff using r a l2 by auto
qed

lemma relabel_inplace:
  assumes "relabel self nl inplace h = Inr (r, h')" and "self < length h"
      and "arg_or True inplace"
  shows "r = None \<and> mutates_in_place (relabel_on nl) self h h'"
proof -
  from assms(1,3) obtain h2 where
    m: "mutate self (relabel_steps nl) h = Inr h2"
    and rf: "relabel_fromzero self (Some ''label'') (Some True) h2 = Inr (r, h')"
    by (auto simp: relabel_def self_or_copy_def bind_e_Inr_iff)
  note m2 = mutate_Inr(1,2,4) [OF m assms(2)]
  have lt2: "self < length h2" using m2(1) assms(2) by simp
  from relabel_fromzero_inplace [OF rf lt2] have r: "r = None"
    and ip: "mutates_in_place (relabel_fromzero_on ''label'') self h2 h'" by blast+
  from ip m2 r show ?thesis
    unfolding mutates_in_place_iff by (simp add: relabel_on_def)
qed

lemma scale_copy:
  assumes "scale self factors cs inplace h = Inr (r, h')" and "self < length h"
      and "\<not> arg_or False inplace"
  shows "returns_fresh_copy (scale_loop (zip factors (arg_or [''x'', ''y'', ''z''] cs))) self h r h'"
proof -
  define g where "g = scale_loop (zip factors (arg_or [''x'', ''y'', ''z''] cs))"
  from assms(1,3) have
    m: "mutate (length h) g (h @ [\<lparr>table = table (h ! self), old_indexes = None\<rparr>]) = Inr h'"
    and r: "r = Some (length h)"
    by (auto simp: scale_def self_or_copy_def copy_m_def bind_e_Inr_iff Let_def g_def
             split: if_splits)
  have lt: "length h < length (h @ [\<lparr>table = table (h ! self), old_indexes = None\<rparr>])" by simp
  from mutate_Inr(1,2) [OF m lt] mutate_Inr(5) [OF m lt, of "length h"]
  show ?thesis unfolding returns_fresh_copy_iff r g_def [symmetric] by simp
qed

lemma scale_inplace:
  assumes "scale self factors cs inplace h = Inr (r, h')" and "self < length h"
      and "arg_or False inplace"
  shows "r = Some self
         \<and> mutates_in_place (scale_loop (zip factors (arg_or [''x'', ''y'', ''z''] cs))) self h h'"
proof -
  define g where "g = scale_loop (zip factors (arg_or [''x'', ''y'', ''z''] cs))"
  from assms(1,3) have m: "mutate self g h = Inr h'" and r: "r = Some self"
    by (auto simp: scale_def self_or_copy_def bind_e_Inr_iff Let_def g_def split: if_splits)
  from mutate_Inr(1,2,4) [OF m assms(2)] r show ?thesis
    unfolding mutates_in_place_iff g_def [symmetric] by simp
qed

lemma reverse_copy:
  assumes "reverse srt self tc inplace h = Inr (r, h')" and "self < length h"
      and "\<not> arg_or False inplace"
  shows "returns_fresh_copy (reverse_on srt (arg_or ''t'' tc)) self h r h'"
proof -
  from assms(1,3) have
    m: "mutate (length h) (reverse_on srt (arg_or ''t'' tc))
          (h @ [\<lparr>table = table (h ! self), old_indexes = None\<rparr>]) = Inr h'"
    and r: "r = Some (length h)"
    by (auto simp: reverse_def self_or_copy_def copy_m_def bind_e_Inr_iff)
  have lt: "length h < length (h @ [\<lparr>table = table (h ! self), old_indexes = None\<rparr>])" by simp
  from mutate_Inr(1,2) [OF m lt] mutate_Inr(5) [OF m lt, of "length h"]
  show ?thesis unfolding returns_fresh_copy_iff r by simp
qed

lemma reverse_inplace:
  assumes "reverse srt self tc inplace h = Inr (r, h')" and "self < length h"
      and "arg_or False inplace"
  shows "r = None \<and> mutates_in_place (reverse_on srt (arg_or ''t'' tc)) self h h'"
proof -
  from assms(1,3) have m: "mutate self (reverse_on srt (arg_or ''t'' tc)) h = Inr h'"
    and r: "r = None"
    by (auto simp: reverse_def self_or_copy_def bind_e_Inr_iff)
  from mutate_Inr(1,2,4) [OF m assms(2)] r show ?thesis
    unfolding mutates_in_place_iff by simp
qed

lemma relabel_fromzero_flag_false:
  assumes "relabel_fromzero self level inplace h = Inr (r, h')" and "self < length h"
      and "\<not> arg_or False inplace"
  shows "returns_fresh_copy (relabel_fromzero_on (arg_or ''label'' level)) self h r h'"
proof -
  from assms(1,3) have
    "relabel_fromzero self (Some (arg_or ''label'' level)) (Some False) h = Inr (r, h')"
    by (simp add: relabel_fromzero_def arg_or_def)
  from relabel_fromzero_copy [OF this assms(2)] show ?thesis .
qed

lemma relabel_fromzero_flag_true:
  assumes "relabel_fromzero self level inplace h = Inr (r, h')" and "self < length h"
      and "arg_or False inplace"
  shows "r = None \<and> mutates_in_place (relabel_fromzero_on (arg_or ''label'' level)) self h h'"
proof -
  from assms(1,3) have
    "relabel_fromzero self (Some (arg_or ''label'' level)) (Some True) h = Inr (r, h')"
    by (simp add: relabel_fromzero_def arg_or_def)
  from relabel_fromzero_inplace [OF this assms(2)] show ?thesis .
qed

lemma label_to_index_Inr:
  assumes "label_to_index self tr h1 = Inr h3"
      and "tr < length h1" and same: "table (h1 ! self) = table (h1 ! tr)"
  shows "length h3 = length h1 \<and> (\<forall>b. b \<noteq> tr \<longrightarrow> h3 ! b = h1 ! b)
         \<and> (\<forall>n\<le>tr. take n h3 = take n h1)
         \<and> set_level_label_on (table (h1 ! tr)) = Inr (table (h3 ! tr))"
proof (cases "''label'' \<notin> set (columns (table (h1 ! tr)))")
  case True
  with assms show ?thesis by (simp add: set_level_label_on_def label_to_index_def)
next
  case False
  define olds where "olds = remove1 ''t_stamp'' (index_names (table (h1 ! tr)))"
  define h2 where "h2 = h1[tr := (h1 ! tr)\<lparr>old_indexes := Some olds\<rparr>]"
  from False assms(1) same have ts: "''t_stamp'' \<in> set (index_names (table (h1 ! tr)))"
    by (auto simp: label_to_index_def split: if_splits)
  from False ts assms(1) same obtain hm where
    m1: "mutate tr (reset_index_levels olds) h2 = Inr hm"
    and m2: "mutate tr (set_index_append ''label'') hm = Inr h3"
    by (auto simp: label_to_index_def Let_def bind_e_Inr_iff olds_def h2_def)
  have lt2: "tr < length h2" using assms(2) by (simp add: h2_def)
  note a = mutate_Inr(1,2,4,5) [OF m1 lt2]
  have ltm: "tr < length hm" using a(1) lt2 by simp
  note b = mutate_Inr(1,2,4,5) [OF m2 ltm]
  have t2: "table (h2 ! tr) = table (h1 ! tr)" using assms(2) by (simp add: h2_def)
  have "set_level_label_on (table (h1 ! tr)) = Inr (table (h3 ! tr))"
    using False ts a(2) b(2) t2 by (simp add: set_level_label_on_def olds_def [symmetric])
  moreover have "length h3 = length h1" using a(1) b(1) by (simp add: h2_def)
  moreover have "\<forall>b. b \<noteq> tr \<longrightarrow> h3 ! b = h1 ! b" using a(3) b(3) by (simp add: h2_def)
  moreover have "\<forall>n\<le>tr. take n h3 = take n h1" using a(4) b(4) by (simp add: h2_def)
  ultimately show ?thesis by blast
qed

lemma set_level_label_copy:
  assumes "set_level_label self inplace h = Inr (r, h')" and "self < length h"
      and "\<not> arg_or True inplace"
  shows "returns_fresh_copy set_level_label_on self h r h'"
proof -
  define h1 where "h1 = h @ [\<lparr>table = table (h ! self), old_indexes = None\<rparr>]"
  have same: "table (h1 ! self) = table (h1 ! length h)"
    using assms(2) by (simp add: h1_def nth_append)
  from assms(1,3) have r: "r = Some (length h)"
    and st: "label_to_index self (length h) h1 = Inr h'"
    by (auto simp: set_level_label_def self_or_copy_def copy_m_def bind_e_Inr_iff h1_def)
  have lt: "length h < length h1" by (simp add: h1_def)
  from label_to_index_Inr [OF st lt same] show ?thesis
    unfolding returns_fresh_copy_iff r by (simp add: h1_def)
qed

lemma set_level_label_inplace:
  assumes "set_level_label self inplace h = Inr (r, h')" and "self < length h"
      and "arg_or True inplace"
  shows "r = None \<and> mutates_in_place set_level_label_on self h h'"
proof -
  from assms(1,3) have r: "r = None" and st: "label_to_index self self h = Inr h'"
    by (auto simp: set_level_label_def self_or_copy_def bind_e_Inr_iff)
  from label_to_index_Inr [OF st assms(2) refl] r show ?thesis
    unfolding mutates_in_place_iff by simp
qed

text \<open>
  Claim C9, amended. For \<^verbatim>\<open>relabel\<close>, \<^verbatim>\<open>set_level_label\<close>, \<^verbatim>\<open>scale\<close>,
  \<^verbatim>\<open>reverse\<close> and \<^verbatim>\<open>relabel_fromzero\<close>, whether a call that returns has worked in
  place is decided by its inplace flag alone. The flag of a caller who leaves it out is
  \<^verbatim>\<open>True\<close> for \<^verbatim>\<open>relabel\<close> and \<^verbatim>\<open>set_level_label\<close> and \<^verbatim>\<open>False\<close> for
  \<^verbatim>\<open>scale\<close>, \<^verbatim>\<open>reverse\<close> and \<^verbatim>\<open>relabel_fromzero\<close>. With the flag true the
  receiver holds the modification afterwards, no object is added and no other object
  changes; with the flag false every object of the store is as it was and the result is a
  new table holding the modification.
\<close>

theorem inplace_flag_decides:
  assumes "self < length h"
  shows "(relabel self nl inplace h = Inr (r1, h1) \<longrightarrow>
            (if arg_or True inplace
               then r1 = None \<and> mutates_in_place (relabel_on nl) self h h1
             else returns_fresh_copy (relabel_on nl) self h r1 h1))
       \<and> (set_level_label self inplace h = Inr (r2, h2) \<longrightarrow>
            (if arg_or True inplace
               then r2 = None \<and> mutates_in_place set_level_label_on self h h2
             else returns_fresh_copy set_level_label_on self h r2 h2))
       \<and> (scale self factors cs inplace h = Inr (r3, h3) \<longrightarrow>
            (if arg_or False inplace
               then r3 = Some self
                    \<and> mutates_in_place (scale_loop (zip factors (arg_or [''x'', ''y'', ''z''] cs)))
                         self h h3
             else returns_fresh_copy (scale_loop (zip factors (arg_or [''x'', ''y'', ''z''] cs)))
                    self h r3 h3))
       \<and> (reverse srt self tc inplace h = Inr (r4, h4) \<longrightarrow>
            (if arg_or False inplace
               then r4 = None \<and> mutates_in_place (reverse_on srt (arg_or ''t'' tc)) self h h4
             else returns_fresh_copy (reverse_on srt (arg_or ''t'' tc)) self h r4 h4))
       \<and> (relabel_fromzero self level inplace h = Inr (r5, h5) \<longrightarrow>
            (if arg_or False inplace
               then r5 = None
                    \<and> mutates_in_place (relabel_fromzero_on (arg_or ''label'' level)) self h h5
             else returns_fresh_copy (relabel_fromzero_on (arg_or ''label'' level)) self h r5 h5))"
proof (intro conjI impI)
  assume "relabel self nl inplace h = Inr (r1, h1)"
  with assms relabel_copy relabel_inplace
  show "if arg_or True inplace
          then r1 = None \<and> mutates_in_place (relabel_on nl) self h h1
        else returns_fresh_copy (relabel_on nl) self h r1 h1"
    by simp
next
  assume "set_level_label self inplace h = Inr (r2, h2)"
  with assms set_level_label_copy set_level_label_inplace
  show "if arg_or True inplace
          then r2 = None \<and> mutates_in_place set_level_label_on self h h2
        else returns_fresh_copy set_level_label_on self h r2 h2"
    by simp
next
  assume "scale self factors cs inplace h = Inr (r3, h3)"
  with assms scale_copy scale_inplace
  show "if arg_or False inplace
          then r3 = Some self
               \<and> mutates_in_place (scale_loop (zip factors (arg_or [''x'', ''y'', ''z''] cs)))
                    self h h3
        else returns_fresh_copy (scale_loop (zip factors (arg_or [''x'', ''y'', ''z''] cs)))
               self h r3 h3"
    by simp
next
  assume "reverse srt self tc inplace h = Inr (r4, h4)"
  with assms reverse_copy reverse_inplace
  show "if arg_or False inplace
          then r4 = None \<and> mutates_in_place (reverse_on srt (arg_or ''t'' tc)) self h h4
        else returns_fresh_copy (reverse_on srt (arg_or ''t'' tc)) self h r4 h4"
    by simp
next
  assume "relabel_fromzero self level inplace h = Inr (r5, h5)"
  with assms relabel_fromzero_flag_false relabel_fromzero_flag_true
  show "if arg_or False inplace
          then r5 = None
               \<and> mutates_in_place (relabel_fromzero_on (arg_or ''label'' level)) self h h5
        else returns_fresh_copy (relabel_fromzero_on (arg_or ''label'' level)) self h r5 h5"
    by simp
qed

theorem inplace_flag_decides_witness:
  "(\<exists>r h'. relabel 0 (Some [IntV 5]) (Some False) one_table = Inr (r, h')
            \<and> returns_fresh_copy (relabel_on (Some [IntV 5])) 0 one_table r h')
   \<and> (\<exists>r h'. set_level_label 0 (Some True) label_column_table = Inr (r, h')
            \<and> r = None \<and> mutates_in_place set_level_label_on 0 label_column_table h')
   \<and> (\<exists>r h'. scale 0 [FloatV 2] (Some [''x'']) None one_table = Inr (r, h')
            \<and> returns_fresh_copy (scale_loop (zip [FloatV 2] [''x''])) 0 one_table r h')
   \<and> (\<exists>r h'. reverse sort_key 0 None (Some True) one_table = Inr (r, h')
            \<and> r = None \<and> mutates_in_place (reverse_on sort_key ''t'') 0 one_table h')
   \<and> (\<exists>r h'. relabel_fromzero 0 None None one_table = Inr (r, h')
            \<and> returns_fresh_copy (relabel_fromzero_on ''label'') 0 one_table r h')"
proof -
  have l1: "(0::nat) < length one_table" by (simp add: one_table_def)
  have l2: "(0::nat) < length label_column_table" by (simp add: label_column_table_def)
  have "case relabel 0 (Some [IntV 5]) (Some False) one_table of
          Inr _ \<Rightarrow> True | Inl _ \<Rightarrow> False"
    by code_simp
  then obtain ra ha where a: "relabel 0 (Some [IntV 5]) (Some False) one_table = Inr (ra, ha)"
    by (auto split: sum.splits)
  have "case set_level_label 0 (Some True) label_column_table of
          Inr _ \<Rightarrow> True | Inl _ \<Rightarrow> False"
    by code_simp
  then obtain rb hb where b: "set_level_label 0 (Some True) label_column_table = Inr (rb, hb)"
    by (auto split: sum.splits)
  have "case scale 0 [FloatV 2] (Some [''x'']) None one_table of
          Inr _ \<Rightarrow> True | Inl _ \<Rightarrow> False"
    by code_simp
  then obtain rc hc where c: "scale 0 [FloatV 2] (Some [''x'']) None one_table = Inr (rc, hc)"
    by (auto split: sum.splits)
  have "case reverse sort_key 0 None (Some True) one_table of
          Inr _ \<Rightarrow> True | Inl _ \<Rightarrow> False"
    by code_simp
  then obtain rd hd where d: "reverse sort_key 0 None (Some True) one_table = Inr (rd, hd)"
    by (auto split: sum.splits)
  have "case relabel_fromzero 0 None None one_table of
          Inr _ \<Rightarrow> True | Inl _ \<Rightarrow> False"
    by code_simp
  then obtain re he where e: "relabel_fromzero 0 None None one_table = Inr (re, he)"
    by (auto split: sum.splits)
  from inplace_flag_decides [OF l1, where nl = "Some [IntV 5]" and inplace = "Some False"
                               and ?r1.0 = ra and ?h1.0 = ha] a
  have 1: "returns_fresh_copy (relabel_on (Some [IntV 5])) 0 one_table ra ha"
    by (simp add: arg_or_def)
  from inplace_flag_decides [OF l2, where inplace = "Some True" and ?r2.0 = rb and ?h2.0 = hb] b
  have 2: "rb = None \<and> mutates_in_place set_level_label_on 0 label_column_table hb"
    by (simp add: arg_or_def)
  from inplace_flag_decides [OF l1, where inplace = None and factors = "[FloatV 2]"
                               and cs = "Some [''x'']" and ?r3.0 = rc and ?h3.0 = hc] c
  have 3: "returns_fresh_copy (scale_loop (zip [FloatV 2] [''x''])) 0 one_table rc hc"
    by (simp add: arg_or_def)
  from inplace_flag_decides [OF l1, where inplace = "Some True" and srt = sort_key
                               and tc = None and ?r4.0 = rd and ?h4.0 = hd] d
  have 4: "rd = None \<and> mutates_in_place (reverse_on sort_key ''t'') 0 one_table hd"
    by (simp add: arg_or_def)
  from inplace_flag_decides [OF l1, where inplace = None and level = None
                               and ?r5.0 = re and ?h5.0 = he] e
  have 5: "returns_fresh_copy (relabel_fromzero_on ''label'') 0 one_table re he"
    by (simp add: arg_or_def)
  from a b c d e 1 2 3 4 5 show ?thesis by blast
qed

text \<open>
  Claim C9 as stated fails for a caller who leaves the flag out: \<^verbatim>\<open>relabel\<close> then
  works in place. The one table of the store had the key \<open>(0, 3)\<close> and has \<open>(0, 0)\<close>
  afterwards; nothing is returned and no copy is made.
\<close>

theorem relabel_default_is_in_place:
  "keys_of (table (one_table ! 0)) = [[IntV 0, IntV 3]]
   \<and> (case relabel 0 (Some [IntV 5]) None one_table of
        Inr (r, h') \<Rightarrow> r = None \<and> length h' = 1
                       \<and> keys_of (table (h' ! 0)) = [[IntV 0, IntV 0]]
      | Inl _ \<Rightarrow> False)"
  by code_simp

section \<open>Reversing time\<close>

lemma insort_key_map:
  "map g (insort_key (\<lambda>x. k (g x)) x ys) = insort_key k (g x) (map g ys)"
  by (induction ys) simp_all

lemma sort_key_map: "map g (sort_key (\<lambda>x. k (g x)) xs) = sort_key k (map g xs)"
  by (induction xs) (simp_all add: insort_key_map)

lemma sort_key_twice:
  assumes "\<And>x y. f x = f y \<longleftrightarrow> g x = g y"
  shows "sort_key f (sort_key g xs) = sort_key f xs"
proof (rule properties_for_sort_key [symmetric])
  show "mset (sort_key f (sort_key g xs)) = mset xs" by simp
next
  show "sorted (map f (sort_key f (sort_key g xs)))" by simp
next
  fix k
  have "filter (\<lambda>x. f k = f x) (sort_key f (sort_key g xs))
        = filter (\<lambda>x. f x = f k) (sort_key f (sort_key g xs))"
    by (rule filter_cong) auto
  also have "\<dots> = filter (\<lambda>x. f x = f k) (sort_key g xs)" by (rule sort_key_stable)
  also have "\<dots> = filter (\<lambda>x. g x = g k) (sort_key g xs)"
    by (rule filter_cong) (auto simp: assms)
  also have "\<dots> = filter (\<lambda>x. g x = g k) xs" by (rule sort_key_stable)
  also have "\<dots> = filter (\<lambda>x. f k = f x) xs"
    by (rule filter_cong) (auto simp: assms)
  finally show "filter (\<lambda>x. f k = f x) (sort_key f (sort_key g xs)) = filter (\<lambda>x. f k = f x) xs" .
qed

lemma num_negate: "num (val_mul v (IntV (- 1))) = - num v"
  by (cases v) simp_all

lemma val_negate_twice: "val_mul (val_mul v (IntV (- 1))) (IntV (- 1)) = v"
  by (cases v) simp_all

lemma mul_column_eq:
  assumes "col \<in> set (columns f)"
  shows "mul_column col c f =
           Inr (f\<lparr>rows := map (\<lambda>r. (fst r, (snd r)[index_of col (columns f) :=
                                          val_mul (snd r ! index_of col (columns f)) c]))
                               (rows f)\<rparr>)"
proof -
  have "map2 (\<lambda>v r. (fst r, (snd r)[index_of col (columns f) := v]))
          (map (\<lambda>v. val_mul v c) (map (\<lambda>r. snd r ! index_of col (columns f)) (rows f))) (rows f)
        = map (\<lambda>r. (fst r, (snd r)[index_of col (columns f) :=
                                      val_mul (snd r ! index_of col (columns f)) c])) (rows f)"
    by (rule map2_of_maps)
  with assms show ?thesis
    by (simp add: mul_column_def getitem_def setitem_def)
qed

lemma nths_from_two: "map (\<lambda>j. (a # b # xs) ! j) [2..<Suc (Suc (length xs))] = xs"
  by (rule nth_equalityI) (simp_all del: upt_Suc)

lemma upt_without_first_two:
  "filter (\<lambda>j. 0 < j \<and> j \<noteq> Suc 0) [0..<Suc (Suc n)] = [2..<Suc (Suc n)]"
proof -
  have "[0..<Suc (Suc n)] = 0 # Suc 0 # [2..<Suc (Suc n)]"
    by (simp add: upt_rec [of 0] upt_rec [of "Suc 0"] numeral_2_eq_2 del: upt_Suc)
  moreover have "filter (\<lambda>j. 0 < j \<and> j \<noteq> Suc 0) [2..<Suc (Suc n)] = [2..<Suc (Suc n)]"
    by (simp add: filter_id_conv del: upt_Suc)
  ultimately show ?thesis by (simp del: upt_Suc)
qed

lemma reverse_on_steps:
  assumes idx: "index_names f = [''t_stamp'', ''label'']" and wf: "wf_frame f"
      and tc: "tc \<in> set (columns f)"
      and nt: "''t_stamp'' \<notin> set (columns f)" and nl: "''label'' \<notin> set (columns f)"
  shows "\<exists>G H. reverse_on srt tc f
                  = Inr (f\<lparr>rows := map H (srt (\<lambda>r. stamp (H r)) (map G (rows f)))\<rparr>)
               \<and> (\<forall>r\<in>set (rows f). H (G r) = negate_row (index_of tc (columns f)) r)"
proof -
  define n where "n = length (columns f)"
  define kc where "kc = index_of tc (columns f)"
  have kc: "kc < n" using tc by (simp add: kc_def n_def index_of_less_iff)
  have tcn: "tc \<noteq> ''t_stamp''" "tc \<noteq> ''label''" using tc nt nl by auto
  define f1 where "f1 = \<lparr>index_names = [], columns = ''t_stamp'' # ''label'' # columns f,
                         rows = map (\<lambda>r. ([], fst r @ snd r)) (rows f)\<rparr>"
  have s1: "reset_index_all f = Inr f1"
    using idx nt nl by (simp add: reset_index_all_def f1_def)
  define G where "G r = ([] :: val list, ((fst r @ snd r)[0 := val_mul ((fst r @ snd r) ! 0) (IntV (- 1))])
                              [Suc (Suc kc) := val_mul (((fst r @ snd r)[0 := val_mul ((fst r @ snd r) ! 0) (IntV (- 1))]) ! Suc (Suc kc)) (IntV (- 1))])" for r :: row
  define f3 where "f3 = f1\<lparr>rows := map G (rows f)\<rparr>"
  have s2: "bind_e (mul_column ''t_stamp'' (IntV (- 1)) f1) (mul_column tc (IntV (- 1))) = Inr f3"
  proof -
    have a: "mul_column ''t_stamp'' (IntV (- 1)) f1
             = Inr (f1\<lparr>rows := map (\<lambda>r. (fst r, (snd r)[0 := val_mul (snd r ! 0) (IntV (- 1))]))
                                   (rows f1)\<rparr>)"
      using mul_column_eq [of "''t_stamp''" f1 "IntV (- 1)"] by (simp add: f1_def)
    have b: "mul_column tc (IntV (- 1))
               (f1\<lparr>rows := map (\<lambda>r. (fst r, (snd r)[0 := val_mul (snd r ! 0) (IntV (- 1))]))
                                   (rows f1)\<rparr>) = Inr f3"
      using mul_column_eq [of tc "f1\<lparr>rows := map (\<lambda>r. (fst r, (snd r)[0 := val_mul (snd r ! 0) (IntV (- 1))]))
                                   (rows f1)\<rparr>" "IntV (- 1)"] tc tcn
      by (simp add: f1_def f3_def G_def kc_def comp_def)
    show ?thesis by (simp add: a b)
  qed
  define H where "H r = ([snd r ! 0, snd r ! 1], map (\<lambda>j. snd r ! j) [2..<Suc (Suc n)])" for r :: row
  have key: "(\<lambda>r. num (snd r ! 0)) = (\<lambda>r. stamp (H r))"
    by (rule ext) (simp add: stamp_def H_def)
  define f4 where "f4 = f3\<lparr>rows := srt (\<lambda>r. stamp (H r)) (rows f3)\<rparr>"
  have s4: "sort_by srt ''t_stamp'' f3 = Inr f4"
    by (simp add: sort_by_def f3_def f1_def f4_def key)
  have s5: "set_index [''t_stamp'', ''label''] f4
            = Inr \<lparr>index_names = [''t_stamp'', ''label''], columns = columns f,
                   rows = map H (rows f4)\<rparr>"
    using nt nl nths_from_two [of "''t_stamp''" "''label''" "columns f"]
    by (simp add: set_index_def f4_def f3_def f1_def Let_def upt_without_first_two H_def n_def
             del: upt_Suc)
  have HG: "\<forall>r\<in>set (rows f). H (G r) = negate_row kc r"
  proof
    fix r assume r: "r \<in> set (rows f)"
    from wf_rowD [OF wf r] idx have l1: "length (fst r) = 2" and l2: "length (snd r) = n"
      by (simp_all add: n_def)
    from l1 obtain t l where fr: "fst r = [t, l]"
      by (cases "fst r") (auto simp: length_Suc_conv)
    have "map (\<lambda>j. (val_mul t (IntV (- 1)) # l # (snd r)[kc := val_mul (snd r ! kc) (IntV (- 1))]) ! j)
              [2..<Suc (Suc (length ((snd r)[kc := val_mul (snd r ! kc) (IntV (- 1))])))]
          = (snd r)[kc := val_mul (snd r ! kc) (IntV (- 1))]"
      by (rule nths_from_two)
    then show "H (G r) = negate_row kc r"
      using fr l2 kc by (simp add: H_def G_def negate_row_def del: upt_Suc)
  qed
  have "reverse_on srt tc f = Inr \<lparr>index_names = [''t_stamp'', ''label''], columns = columns f,
                   rows = map H (rows f4)\<rparr>"
    using s1 s2 s4 s5 by (auto simp: reverse_on_def bind_e_Inr_iff)
  then have "reverse_on srt tc f
               = Inr (f\<lparr>rows := map H (srt (\<lambda>r. stamp (H r)) (map G (rows f)))\<rparr>)"
    using idx by (simp add: f4_def f3_def)
  with HG show ?thesis unfolding kc_def by blast
qed


lemma reverse_on_stable:
  assumes idx: "index_names f = [''t_stamp'', ''label'']" and wf: "wf_frame f"
      and tc: "tc \<in> set (columns f)"
      and nt: "''t_stamp'' \<notin> set (columns f)" and nl: "''label'' \<notin> set (columns f)"
  shows "reverse_on sort_key tc f =
           Inr (f\<lparr>rows := sort_key stamp (map (negate_row (index_of tc (columns f))) (rows f))\<rparr>)"
proof -
  from reverse_on_steps [OF idx wf tc nt nl, of sort_key] obtain G H :: "row \<Rightarrow> row" where
        run: "reverse_on sort_key tc f
                = Inr (f\<lparr>rows := map H (sort_key (\<lambda>r. stamp (H r)) (map G (rows f)))\<rparr>)"
    and HG: "\<forall>r\<in>set (rows f). H (G r) = negate_row (index_of tc (columns f)) r"
    by blast
  have "map H (sort_key (\<lambda>r. stamp (H r)) (map G (rows f)))
        = sort_key stamp (map H (map G (rows f)))"
    by (rule sort_key_map)
  also have "map H (map G (rows f)) = map (negate_row (index_of tc (columns f))) (rows f)"
    using HG by simp
  finally show ?thesis using run by simp
qed

lemma negate_row_twice:
  assumes "length (fst r) = 2" and "k < length (snd r)"
  shows "negate_row k (negate_row k r) = r"
proof -
  from assms(1) obtain t l where fr: "fst r = [t, l]"
    by (cases "fst r") (auto simp: length_Suc_conv)
  have "(snd r)[k := snd r ! k] = snd r" by simp
  with fr assms(2) show ?thesis
    by (cases r) (simp add: negate_row_def val_negate_twice)
qed

lemma stamp_negate_row: "stamp (negate_row k r) = - stamp r"
  by (simp add: stamp_def negate_row_def num_negate)



text \<open>
  With a stable sorting routine the rows of one frame keep their order, and two
  applications give exactly the stable sort of the original rows.
\<close>

lemma reverse_on_twice_stable:
  assumes idx: "index_names f = [''t_stamp'', ''label'']" and wf: "wf_frame f"
      and tc: "tc \<in> set (columns f)"
      and nt: "''t_stamp'' \<notin> set (columns f)" and nl: "''label'' \<notin> set (columns f)"
  shows "bind_e (reverse_on sort_key tc f) (reverse_on sort_key tc)
           = Inr (f\<lparr>rows := sort_key stamp (rows f)\<rparr>)"
proof -
  define kc where "kc = index_of tc (columns f)"
  define N where "N = negate_row kc"
  define f1 where "f1 = f\<lparr>rows := sort_key stamp (map N (rows f))\<rparr>"
  have kc: "kc < length (columns f)" using tc by (simp add: kc_def index_of_less_iff)
  have once: "reverse_on sort_key tc f = Inr f1"
    using reverse_on_stable [OF idx wf tc nt nl] by (simp add: f1_def N_def kc_def)
  have wf1: "wf_frame f1"
    unfolding wf_frame_def list_all_iff f1_def N_def
    using idx wf by (auto simp: negate_row_def dest: wf_rowD)
  have "reverse_on sort_key tc f1 =
          Inr (f1\<lparr>rows := sort_key stamp (map (negate_row (index_of tc (columns f1))) (rows f1))\<rparr>)"
    by (rule reverse_on_stable) (use idx wf1 tc nt nl in \<open>simp_all add: f1_def\<close>)
  then have twice: "reverse_on sort_key tc f1 =
          Inr (f\<lparr>rows := sort_key stamp (map N (sort_key stamp (map N (rows f))))\<rparr>)"
    by (simp add: f1_def N_def kc_def)
  have st: "stamp = (\<lambda>x. - stamp (N x))"
    by (rule ext) (simp add: N_def stamp_negate_row)
  have "map N (sort_key stamp (map N (rows f)))
        = map N (sort_key (\<lambda>x. - stamp (N x)) (map N (rows f)))"
    using st by simp
  also have "\<dots> = sort_key (\<lambda>z. - stamp z) (map N (map N (rows f)))"
    by (rule sort_key_map)
  also have "map N (map N (rows f)) = rows f"
  proof -
    have "\<And>r. r \<in> set (rows f) \<Longrightarrow> N (N r) = r"
      unfolding N_def using idx kc by (auto intro!: negate_row_twice dest: wf_rowD [OF wf])
    then show ?thesis by (simp add: map_idI)
  qed
  finally have "sort_key stamp (map N (sort_key stamp (map N (rows f))))
                = sort_key stamp (sort_key (\<lambda>z. - stamp z) (rows f))"
    by simp
  also have "\<dots> = sort_key stamp (rows f)"
    by (rule sort_key_twice) simp
  finally have "reverse_on sort_key tc f1 = Inr (f\<lparr>rows := sort_key stamp (rows f)\<rparr>)"
    using twice by simp
  with once show ?thesis by simp
qed



end
